theory Spec2Isabelle
  imports Complex_Main
begin

section \<open>Notification toasts: the model of notifications.ts\<close>

text \<open>
  The module builds notification subtrees in the DOM, arms auto-dismiss timers on the
  broadcast of the shown event, and hands out progress handles. The model keeps what
  the code reads and writes: the children of the container, the document fragments
  that still hold their freshly built element, the inner texts, the subscriptions of
  the shown event, the closure variable \<open>closeTimer\<close> of every built element, and the
  timers pending in the window.

  Numbers are doubles, with the rounding, the infinities, NaN and the negative zero of
  IEEE 754; the clock is a rational count of milliseconds. Callbacks supplied by the
  caller (\<open>onTimeout\<close>, \<open>action.fn\<close>) are opaque: a call is recorded in the log under the
  callback's name and changes nothing else.
\<close>

text \<open>Time is counted in milliseconds.\<close>

type_synonym millis = rat

subsection \<open>Numbers\<close>

text \<open>
  The numbers of the code are IEEE 754 doubles: a finite value (\<open>Finite 0\<close> is the
  positive zero), the negative zero, the two infinities, or NaN. A finite double is
  given by its exact rational value, and the result of an operation is the exact result
  rounded to the nearest double, ties to the even significand, with the subnormal range
  below \<open>2^-1022\<close> and infinity from \<open>2^1024\<close> on.
\<close>

datatype double = Finite rat | NegZero | PosInf | NegInf | NaN

definition is_negative :: "double \<Rightarrow> bool" where
  "is_negative x =
     (case x of Finite r \<Rightarrow> r < 0 | NegZero \<Rightarrow> True | NegInf \<Rightarrow> True
      | PosInf \<Rightarrow> False | NaN \<Rightarrow> False)"

definition is_zero :: "double \<Rightarrow> bool" where
  "is_zero x = (x = Finite 0 \<or> x = NegZero)"

definition is_inf :: "double \<Rightarrow> bool" where
  "is_inf x = (x = PosInf \<or> x = NegInf)"

definition signed_zero :: "bool \<Rightarrow> double" where
  "signed_zero neg = (if neg then NegZero else Finite 0)"

definition signed_inf :: "bool \<Rightarrow> double" where
  "signed_inf neg = (if neg then NegInf else PosInf)"

definition value_of :: "double \<Rightarrow> rat" where
  "value_of x = (case x of Finite r \<Rightarrow> r | _ \<Rightarrow> 0)"

text \<open>The tests \<open>x\<close> (as a condition) and \<open>x > 0\<close>.\<close>

definition js_truthy :: "double \<Rightarrow> bool" where
  "js_truthy x = (x \<noteq> NaN \<and> \<not> is_zero x)"

definition js_gt_zero :: "double \<Rightarrow> bool" where
  "js_gt_zero x = (case x of Finite r \<Rightarrow> 0 < r | PosInf \<Rightarrow> True | _ \<Rightarrow> False)"

definition pow2 :: "int \<Rightarrow> rat" where
  "pow2 k = (if 0 \<le> k then 2 ^ nat k else 1 / 2 ^ nat (- k))"

text \<open>The exponent of a positive number: \<open>2^e \<le> a < 2^(e+1)\<close>.\<close>

function floor_log2 :: "rat \<Rightarrow> int" where
  "floor_log2 a =
     (if a \<le> 0 then 0
      else if 2 \<le> a then floor_log2 (a / 2) + 1
      else if a < 1 then floor_log2 (a * 2) - 1
      else 0)"
  by pat_completeness auto
termination
proof (relation "measure (\<lambda>a. if 1 \<le> a then nat \<lfloor>a\<rfloor> else nat \<lceil>1 / a\<rceil>)")
  show "wf (measure (\<lambda>a::rat. if 1 \<le> a then nat \<lfloor>a\<rfloor> else nat \<lceil>1 / a\<rceil>))"
    by simp
next
  fix a :: rat
  assume "\<not> a \<le> 0" and "2 \<le> a"
  then have "\<lfloor>a / 2\<rfloor> < \<lfloor>a\<rfloor>" by linarith
  moreover have "0 < \<lfloor>a\<rfloor>" using \<open>2 \<le> a\<close> by linarith
  ultimately show "(a / 2, a) \<in> measure (\<lambda>a. if 1 \<le> a then nat \<lfloor>a\<rfloor> else nat \<lceil>1 / a\<rceil>)"
    using \<open>2 \<le> a\<close> by auto
next
  fix a :: rat
  assume pos: "\<not> a \<le> 0" and "\<not> 2 \<le> a" and lt: "a < 1"
  have inv: "1 < 1 / a" using pos lt by simp
  then have c2: "2 \<le> \<lceil>1 / a\<rceil>" by linarith
  show "(a * 2, a) \<in> measure (\<lambda>a. if 1 \<le> a then nat \<lfloor>a\<rfloor> else nat \<lceil>1 / a\<rceil>)"
  proof (cases "1 \<le> a * 2")
    case True
    have "\<lfloor>a * 2\<rfloor> = 1" using True lt by linarith
    then show ?thesis using True lt c2 by auto
  next
    case False
    then have "2 \<le> 1 / a" using pos by (simp add: field_simps)
    moreover have "1 / (a * 2) = (1 / a) / 2" by simp
    ultimately have "\<lceil>1 / (a * 2)\<rceil> < \<lceil>1 / a\<rceil>" by linarith
    then show ?thesis using False lt c2 pos by auto
  qed
qed

declare floor_log2.simps [simp del]

definition round_half_even :: "rat \<Rightarrow> int" where
  "round_half_even y =
     (let f = \<lfloor>y\<rfloor>; d = y - of_int f
      in if d < 1 / 2 then f
         else if 1 / 2 < d then f + 1
         else if even f then f else f + 1)"

text \<open>The double nearest to a rational: 53 significant bits, the step fixed at
  \<open>2^-1074\<close> below \<open>2^-1022\<close>, infinity when the rounded value reaches \<open>2^1024\<close>.\<close>

definition round_double :: "rat \<Rightarrow> double" where
  "round_double r =
     (if r = 0 then Finite 0
      else let a = \<bar>r\<bar>;
               q = pow2 (max (floor_log2 a) (- 1022) - 52);
               v = of_int (round_half_even (a / q)) * q
           in if 1024 \<le> floor_log2 v then signed_inf (r < 0)
              else if v = 0 then signed_zero (r < 0)
              else Finite (if r < 0 then - v else v))"

text \<open>
  \<open>a / b\<close>, \<open>a * b\<close> and \<open>Math.floor(x)\<close>. NaN gives NaN; infinity by infinity, zero
  by zero and infinity times zero give NaN; otherwise the sign of a quotient or product
  is the product of the signs, a division by zero or of an infinity gives an infinity,
  and a zero dividend or factor, or a division by an infinity, gives a zero.
\<close>

definition js_div :: "double \<Rightarrow> double \<Rightarrow> double" where
  "js_div a b =
     (if a = NaN \<or> b = NaN then NaN
      else if is_inf a \<and> is_inf b then NaN
      else if is_zero a \<and> is_zero b then NaN
      else if is_inf a \<or> is_zero b then signed_inf (is_negative a \<noteq> is_negative b)
      else if is_zero a \<or> is_inf b then signed_zero (is_negative a \<noteq> is_negative b)
      else round_double (value_of a / value_of b))"

definition js_mul :: "double \<Rightarrow> double \<Rightarrow> double" where
  "js_mul a b =
     (if a = NaN \<or> b = NaN then NaN
      else if (is_inf a \<and> is_zero b) \<or> (is_zero a \<and> is_inf b) then NaN
      else if is_inf a \<or> is_inf b then signed_inf (is_negative a \<noteq> is_negative b)
      else if is_zero a \<or> is_zero b then signed_zero (is_negative a \<noteq> is_negative b)
      else round_double (value_of a * value_of b))"

definition js_floor :: "double \<Rightarrow> double" where
  "js_floor x = (case x of Finite r \<Rightarrow> Finite (of_int \<lfloor>r\<rfloor>) | _ \<Rightarrow> x)"

text \<open>
  The string of a number with an integer value, as a template literal prints it: the
  shortest decimal digits that round back to the number, the closest such if there are
  several, followed by zeros up to 21 digits in all and in exponent notation beyond.
\<close>

definition digit :: "int \<Rightarrow> char" where
  "digit d = ''0123456789'' ! nat d"

function digits :: "int \<Rightarrow> string" where
  "digits n =
     (if n < 10 then [digit n]
      else digits (n div 10) @ [digit (n mod 10)])"
  by pat_completeness auto
termination
  by (relation "measure nat") auto

declare digits.simps [simp del]

definition rounds_to :: "int \<Rightarrow> int \<Rightarrow> bool" where
  "rounds_to v x = (round_double (of_int v) = Finite (of_int x))"

text \<open>\<open>shortest d x\<close>: the digits \<open>s\<close> and the count \<open>d'\<close> of dropped places with
  \<open>s * 10^d'\<close> rounding to \<open>x\<close>, trying to drop \<open>d\<close> places first, then fewer.\<close>

fun shortest :: "nat \<Rightarrow> int \<Rightarrow> int \<times> nat" where
  "shortest 0 x = (x, 0)"
| "shortest (Suc d) x =
     (let p = 10 ^ Suc d; lo = x div p; hi = lo + 1;
          oklo = (0 < lo \<and> rounds_to (lo * p) x); okhi = rounds_to (hi * p) x
      in if oklo \<and> okhi then
           (if x - lo * p < hi * p - x then (lo, Suc d)
            else if hi * p - x < x - lo * p then (hi, Suc d)
            else if even lo then (lo, Suc d) else (hi, Suc d))
         else if oklo then (lo, Suc d)
         else if okhi then (hi, Suc d)
         else shortest d x)"

function strip_zeros :: "int \<Rightarrow> nat \<Rightarrow> int \<times> nat" where
  "strip_zeros s d =
     (if 0 < s \<and> s mod 10 = 0 then strip_zeros (s div 10) (Suc d) else (s, d))"
  by pat_completeness auto
termination
  by (relation "measure (\<lambda>(s, d). nat s)") auto

declare strip_zeros.simps [simp del]

definition integer_to_string :: "int \<Rightarrow> string" where
  "integer_to_string x =
     (if x = 0 then ''0''
      else let (s, d) = (case shortest (length (digits x) - 1) x of
                           (s, d) \<Rightarrow> strip_zeros s d);
               ds = digits s; n = length ds + d
           in if n \<le> 21 then ds @ replicate d (CHR ''0'')
              else if length ds = 1 then ds @ ''e+'' @ digits (int n - 1)
              else hd ds # ''.'' @ tl ds @ ''e+'' @ digits (int n - 1))"

definition number_to_string :: "double \<Rightarrow> string" where
  "number_to_string x =
     (case x of
        NaN \<Rightarrow> ''NaN''
      | PosInf \<Rightarrow> ''Infinity''
      | NegInf \<Rightarrow> ''-Infinity''
      | NegZero \<Rightarrow> ''0''
      | Finite r \<Rightarrow>
          if r < 0 then CHR ''-'' # integer_to_string (- \<lfloor>r\<rfloor>)
          else integer_to_string \<lfloor>r\<rfloor>)"

subsection \<open>Data\<close>

type_synonym callback = nat

definition NOTIFICATIONS_CONTAINER :: string where
  "NOTIFICATIONS_CONTAINER = ''theia-NotificationsContainer''"
definition NOTIFICATION :: string where
  "NOTIFICATION = ''theia-Notification''"
definition ICON :: string where
  "ICON = ''icon''"
definition TEXT :: string where
  "TEXT = ''text''"
definition BUTTONS :: string where
  "BUTTONS = ''buttons''"
definition PROGRESS :: string where
  "PROGRESS = ''progress''"

record NotificationAction =
  label :: string
  fn :: callback

record NotificationProperties =
  id_p :: string
  icon :: string
  text_p :: string
  actions :: "NotificationAction list option"
  timeout :: "double option"
  onTimeout :: callback

text \<open>The argument of \<open>update\<close>: \<open>{message?, work?: {done, total}}\<close>.\<close>

record work_item =
  done_w :: double
  total_w :: double

record update_item =
  message :: "string option"
  work :: "work_item option"

text \<open>
  One built notification subtree: the outer \<open>div\<close> with id
  \<open>notification-container-<id>\<close>, the class list of its icon, the inner text of the
  \<open>p\<close> with id \<open>notification-progress-<id>\<close> when that element exists, the inner text
  of the \<open>p\<close> with id \<open>notification-text-<id>\<close>, and the labels of its buttons.
\<close>

record notification_element =
  props :: NotificationProperties
  element_classes :: "string list"
  icon_container_classes :: "string list"
  icon_classes :: "string list"
  progress_innerText :: "string option"
  text_innerText :: string
  button_labels :: "string list"

text \<open>The exceptions of \<open>DOMTokenList.add\<close>, the only DOM call of the module that can throw.\<close>

datatype dom_error = SyntaxError | InvalidCharacterError

datatype effect =
    ShownEvent string
  | OnTimeoutCalled callback
  | ActionCalled callback nat
  | ElementRemove nat

text \<open>
  The state. Elements are numbered in order of creation; a fragment and the element
  built in it share the number. \<open>container\<close> lists the children of the notifications
  container in document order, \<open>fragments\<close> the elements still held by their fragment.
  \<open>listeners\<close> are the subscriptions of \<open>onShow\<close> made at line 118, named by the element
  whose closure they belong to. A pending timer maps its handle to the element whose
  closure scheduled it and to its deadline.
\<close>

record state =
  elems :: "nat \<Rightarrow> notification_element option"
  next_elem :: nat
  container :: "nat list"
  fragments :: "nat set"
  listeners :: "nat list"
  closeTimer :: "nat \<Rightarrow> nat option"
  timers :: "nat \<Rightarrow> (nat \<times> millis) option"
  timer_count :: nat
  now :: millis
  log :: "effect list"

text \<open>
  The constructor: the container is created empty and appended to the parent, which is
  taken to belong to the document (the default parent is the document's body).
\<close>

definition Notifications_new :: state where
  "Notifications_new =
     \<lparr>elems = (\<lambda>_. None), next_elem = 0, container = [], fragments = {}, listeners = [],
      closeTimer = (\<lambda>_. None), timers = (\<lambda>_. None), timer_count = 0, now = 0, log = []\<rparr>"

subsection \<open>The DOM calls the module makes\<close>

definition ascii_whitespace :: "char \<Rightarrow> bool" where
  "ascii_whitespace c =
     (c = CHR 0x09 \<or> c = CHR 0x0A \<or> c = CHR 0x0C \<or> c = CHR 0x0D \<or> c = CHR '' '')"

text \<open>
  \<open>classList.add(tokens)\<close>: the tokens are validated in order before any is added; an
  empty token throws a SyntaxError, a token with ASCII whitespace an
  InvalidCharacterError. A token already in the list is not added again.
\<close>

fun validate_tokens :: "string list \<Rightarrow> dom_error option" where
  "validate_tokens [] = None"
| "validate_tokens (t # ts) =
     (if t = [] then Some SyntaxError
      else if list_ex ascii_whitespace t then Some InvalidCharacterError
      else validate_tokens ts)"

definition add_token :: "string \<Rightarrow> string list \<Rightarrow> string list" where
  "add_token t cl = (if List.member cl t then cl else cl @ [t])"

definition classList_add :: "string list \<Rightarrow> string list \<Rightarrow> dom_error + string list" where
  "classList_add cl toks =
     (case validate_tokens toks of
        Some err \<Rightarrow> Inl err
      | None \<Rightarrow> Inr (fold add_token toks cl))"

text \<open>
  \<open>window.setTimeout\<close> takes its delay as a 32-bit signed integer: the number is cut to
  its integer part and wrapped modulo \<open>2^32\<close> into \<open>-2^31 .. 2^31 - 1\<close>, and a negative
  delay counts as 0. So a whole number of milliseconds below \<open>2^31\<close> is kept, a fraction
  is dropped, and \<open>2^31\<close> itself becomes 0, as do NaN and the infinities.
\<close>

definition to_long :: "double \<Rightarrow> int" where
  "to_long x =
     (case x of
        Finite r \<Rightarrow>
          let t = (if 0 \<le> r then \<lfloor>r\<rfloor> else \<lceil>r\<rceil>); m = t mod 4294967296
          in if 2147483648 \<le> m then m - 4294967296 else m
      | _ \<Rightarrow> 0)"

definition timer_delay :: "double \<Rightarrow> millis" where
  "timer_delay T = of_int (max 0 (to_long T))"

text \<open>\<open>window.setTimeout\<close> returns a fresh positive handle; \<open>window.clearTimeout\<close> drops
  the timer, pending or not.\<close>

definition setTimeout :: "nat \<Rightarrow> double \<Rightarrow> state \<Rightarrow> nat \<times> state" where
  "setTimeout e T s =
     (let h = Suc (timer_count s)
      in (h, s\<lparr>timers := (timers s)(h \<mapsto> (e, now s + timer_delay T)), timer_count := h\<rparr>))"

definition clearTimeout :: "nat \<Rightarrow> state \<Rightarrow> state" where
  "clearTimeout h s = s\<lparr>timers := (timers s)(h := None)\<rparr>"

text \<open>\<open>element.remove()\<close>: the element leaves its parent, the container or its fragment.\<close>

definition element_remove :: "nat \<Rightarrow> state \<Rightarrow> state" where
  "element_remove e s =
     s\<lparr>container := filter (\<lambda>x. x \<noteq> e) (container s),
       fragments := fragments s - {e},
       log := log s @ [ElementRemove e]\<rparr>"

text \<open>\<open>container.appendChild(fragment)\<close>: the children of the fragment move to the end of
  the container and the fragment is left empty; an empty fragment appends nothing.\<close>

definition appendChild_fragment :: "nat \<Rightarrow> state \<Rightarrow> state" where
  "appendChild_fragment e s =
     (if e \<in> fragments s
      then s\<lparr>container := container s @ [e], fragments := fragments s - {e}\<rparr>
      else s)"

text \<open>
  \<open>document.getElementById\<close>, by the kind of id looked up. The three ids of a subtree
  start with \<open>notification-container-\<close>, \<open>notification-progress-\<close> and
  \<open>notification-text-\<close>, which differ at their fourteenth character, so a lookup of one
  kind finds the first element of that kind, in document order, among the subtrees in
  the container. Other elements of the host page are taken not to carry these ids.
\<close>

definition has_id :: "state \<Rightarrow> string \<Rightarrow> nat \<Rightarrow> bool" where
  "has_id s i e = (case elems s e of None \<Rightarrow> False | Some el \<Rightarrow> id_p (props el) = i)"

definition has_progress :: "state \<Rightarrow> nat \<Rightarrow> bool" where
  "has_progress s e =
     (case elems s e of None \<Rightarrow> False | Some el \<Rightarrow> progress_innerText el \<noteq> None)"

definition getContainerById :: "state \<Rightarrow> string \<Rightarrow> nat option" where
  "getContainerById s i = List.find (has_id s i) (container s)"

definition getTextById :: "state \<Rightarrow> string \<Rightarrow> nat option" where
  "getTextById s i = List.find (has_id s i) (container s)"

definition getProgressById :: "state \<Rightarrow> string \<Rightarrow> nat option" where
  "getProgressById s i = List.find (\<lambda>e. has_id s i e \<and> has_progress s e) (container s)"

subsection \<open>The shown event\<close>

text \<open>
  The listener subscribed at line 118 in the closure of element \<open>e\<close>. Timer handles are
  positive, so the test \<open>if (closeTimer)\<close> holds exactly when the variable has been
  assigned.
\<close>

definition listener :: "nat \<Rightarrow> string \<Rightarrow> state \<Rightarrow> state" where
  "listener e i s =
     (case elems s e of
        None \<Rightarrow> s
      | Some el \<Rightarrow>
          if id_p (props el) \<noteq> i then s
          else (case timeout (props el) of
                  None \<Rightarrow> s
                | Some T \<Rightarrow>
                    let s1 = (case closeTimer s e of
                                Some h \<Rightarrow> clearTimeout h s
                              | None \<Rightarrow> s);
                        (h', s2) = setTimeout e T s1
                    in s2\<lparr>closeTimer := (closeTimer s2)(e \<mapsto> h')\<rparr>))"

text \<open>Modelled from the spec: the emitter of the core package is not among the sources.
  The shown event is a single broadcast channel: firing it calls every subscribed
  listener, synchronously and in the order of subscription, with the notification id.\<close>

definition fire :: "string \<Rightarrow> state \<Rightarrow> state" where
  "fire i s = fold (\<lambda>e. listener e i) (listeners s) (s\<lparr>log := log s @ [ShownEvent i]\<rparr>)"

subsection \<open>Notifications\<close>

definition toIconClass :: "string \<Rightarrow> string" where
  "toIconClass ic =
     (if ic = ''error'' then ''fa-times-circle''
      else if ic = ''warning'' then ''fa-warning''
      else if ic = ''progress'' then ''fa-spinner''
      else ''fa-info-circle'')"

text \<open>\<open>properties.timeout && properties.timeout > 0\<close>\<close>

definition timeout_armed :: "NotificationProperties \<Rightarrow> bool" where
  "timeout_armed p =
     (case timeout p of None \<Rightarrow> False | Some T \<Rightarrow> js_truthy T \<and> js_gt_zero T)"

text \<open>
  \<open>createNotificationElement\<close>: builds the subtree in a fresh fragment and returns the
  fragment. A throw of \<open>classList.add\<close> leaves the state as it was: nothing built so far
  is reachable, and the subscription comes after the last such call. The progress, text
  and button containers each receive one fixed class name, which is a valid token; their
  class lists are not kept.
\<close>

definition createNotificationElement ::
  "state \<Rightarrow> NotificationProperties \<Rightarrow> dom_error + (nat \<times> state)" where
  "createNotificationElement s p =
     (case classList_add [] [NOTIFICATION] of Inl err \<Rightarrow> Inl err | Inr ecl \<Rightarrow>
      case classList_add [] [ICON] of Inl err \<Rightarrow> Inl err | Inr iccl \<Rightarrow>
      case classList_add [] [''fa'', toIconClass (icon p)] of Inl err \<Rightarrow> Inl err | Inr c1 \<Rightarrow>
      case (if icon p = PROGRESS then classList_add c1 [''fa-pulse''] else Inr c1) of
        Inl err \<Rightarrow> Inl err | Inr c2 \<Rightarrow>
      case classList_add c2 [''fa-fw'', icon p] of Inl err \<Rightarrow> Inl err | Inr c3 \<Rightarrow>
        let e = next_elem s;
            el = \<lparr>props = p,
                  element_classes = ecl,
                  icon_container_classes = iccl,
                  icon_classes = c3,
                  progress_innerText = (if icon p = PROGRESS then Some [] else None),
                  text_innerText = text_p p,
                  button_labels = (case actions p of None \<Rightarrow> [] | Some as \<Rightarrow> map label as)\<rparr>;
            s1 = s\<lparr>elems := (elems s)(e \<mapsto> el), next_elem := Suc e,
                   fragments := insert e (fragments s)\<rparr>;
            s2 = (if timeout_armed p then s1\<lparr>listeners := listeners s1 @ [e]\<rparr> else s1)
        in Inr (e, s2))"

text \<open>\<open>Notifications.show\<close>\<close>

definition Notifications_show :: "state \<Rightarrow> NotificationProperties \<Rightarrow> dom_error + state" where
  "Notifications_show s p =
     (case createNotificationElement s p of
        Inl err \<Rightarrow> Inl err
      | Inr (e, s1) \<Rightarrow> Inr (fire (id_p p) (appendChild_fragment e s1)))"

text \<open>The handle: the fragment it was given and the properties.\<close>

record ProgressNotificationImpl =
  node :: nat
  properties :: NotificationProperties

text \<open>\<open>Notifications.create\<close>\<close>

definition Notifications_create ::
  "state \<Rightarrow> NotificationProperties \<Rightarrow> dom_error + (ProgressNotificationImpl \<times> state)" where
  "Notifications_create s p =
     (case createNotificationElement s p of
        Inl err \<Rightarrow> Inl err
      | Inr (e, s1) \<Rightarrow> Inr (\<lparr>node = e, properties = p\<rparr>, s1))"

subsection \<open>The progress handle\<close>

definition close :: "ProgressNotificationImpl \<Rightarrow> state \<Rightarrow> state" where
  "close h s =
     (case getContainerById s (id_p (properties h)) of
        None \<Rightarrow> s
      | Some e \<Rightarrow> element_remove e s)"

definition show_h :: "ProgressNotificationImpl \<Rightarrow> state \<Rightarrow> state" where
  "show_h h s =
     (case getContainerById s (id_p (properties h)) of
        None \<Rightarrow> fire (id_p (properties h)) (appendChild_fragment (node h) s)
      | Some e \<Rightarrow> s)"

text \<open>The percentage text \<open>`${Math.floor(done / total * 100)}%`\<close>, in the arithmetic
  of doubles.\<close>

definition progress_text :: "work_item \<Rightarrow> string" where
  "progress_text w =
     number_to_string (js_floor (js_mul (js_div (done_w w) (total_w w)) (Finite 100)))
       @ ''%''"

text \<open>\<open>item.message ? ': ' + item.message : ''\<close>: an empty message is falsy.\<close>

definition message_suffix :: "update_item \<Rightarrow> string" where
  "message_suffix item =
     (case message item of
        None \<Rightarrow> []
      | Some m \<Rightarrow> if m = [] then [] else '': '' @ m)"

definition set_text :: "nat \<Rightarrow> string \<Rightarrow> state \<Rightarrow> state" where
  "set_text e t s =
     (case elems s e of
        None \<Rightarrow> s
      | Some el \<Rightarrow> s\<lparr>elems := (elems s)(e \<mapsto> el\<lparr>text_innerText := t\<rparr>)\<rparr>)"

definition set_progress :: "nat \<Rightarrow> string \<Rightarrow> state \<Rightarrow> state" where
  "set_progress e t s =
     (case elems s e of
        None \<Rightarrow> s
      | Some el \<Rightarrow> s\<lparr>elems := (elems s)(e \<mapsto> el\<lparr>progress_innerText := Some t\<rparr>)\<rparr>)"

definition update :: "ProgressNotificationImpl \<Rightarrow> update_item \<Rightarrow> state \<Rightarrow> state" where
  "update h item s =
     (case getTextById s (id_p (properties h)) of
        None \<Rightarrow> s
      | Some te \<Rightarrow>
          let s1 = (case work item of
                      None \<Rightarrow> s
                    | Some w \<Rightarrow>
                        (case getProgressById s (id_p (properties h)) of
                           None \<Rightarrow> s
                         | Some pe \<Rightarrow> set_progress pe (progress_text w) s))
          in set_text te (text_p (properties h) @ message_suffix item) s1)"

subsection \<open>Clicks and timers\<close>

text \<open>The click listener of the \<open>k\<close>-th button of element \<open>e\<close> (line 136).\<close>

definition click :: "nat \<Rightarrow> nat \<Rightarrow> state \<Rightarrow> state" where
  "click e k s =
     (case elems s e of
        None \<Rightarrow> s
      | Some el \<Rightarrow>
          (case actions (props el) of
             None \<Rightarrow> s
           | Some as \<Rightarrow>
               if k < length as
               then let s1 = (case closeTimer s e of
                                Some h \<Rightarrow> clearTimeout h s
                              | None \<Rightarrow> s);
                        s2 = s1\<lparr>log := log s1 @ [ActionCalled (fn (as ! k)) e]\<rparr>
                    in element_remove e s2
               else s))"

text \<open>The timer callback of line 125, run by the window for a pending timer whose
  deadline has passed; the timer is spent. Any other handle does nothing.\<close>

definition timer_fires :: "nat \<Rightarrow> state \<Rightarrow> state" where
  "timer_fires h s =
     (case timers s h of
        None \<Rightarrow> s
      | Some (e, d) \<Rightarrow>
          if d \<le> now s
          then (case elems s e of
                  None \<Rightarrow> s
                | Some el \<Rightarrow>
                    let s1 = s\<lparr>timers := (timers s)(h := None),
                               log := log s @ [OnTimeoutCalled (onTimeout (props el))]\<rparr>
                    in element_remove e s1)
          else s)"

definition advance :: "millis \<Rightarrow> state \<Rightarrow> state" where
  "advance d s = (if d < 0 then s else s\<lparr>now := now s + d\<rparr>)"

subsection \<open>Runs\<close>

text \<open>What can happen to a notifications object: calls of its two methods, calls on a
  handle, clicks on a button, the passing of time and the firing of a timer. A call
  that throws leaves the state as it was. \<open>dispose\<close> ends the life of the object and of
  its emitter and is not among the events: the runs are those of an object in use.\<close>

datatype event =
    Show NotificationProperties
  | Create NotificationProperties
  | HShow ProgressNotificationImpl
  | HClose ProgressNotificationImpl
  | HUpdate ProgressNotificationImpl update_item
  | Click nat nat
  | TimerFires nat
  | Advance millis

fun step :: "state \<Rightarrow> event \<Rightarrow> state" where
  "step s (Show p) = (case Notifications_show s p of Inl err \<Rightarrow> s | Inr s' \<Rightarrow> s')"
| "step s (Create p) = (case Notifications_create s p of Inl err \<Rightarrow> s | Inr (h, s') \<Rightarrow> s')"
| "step s (HShow h) = show_h h s"
| "step s (HClose h) = close h s"
| "step s (HUpdate h item) = update h item s"
| "step s (Click e k) = click e k s"
| "step s (TimerFires h) = timer_fires h s"
| "step s (Advance d) = advance d s"

definition run :: "state \<Rightarrow> event list \<Rightarrow> state" where
  "run s evs = foldl step s evs"

subsection \<open>A notification used in the examples\<close>

definition example_props :: NotificationProperties where
  "example_props =
     \<lparr>id_p = ''n1'', icon = ''progress'', text_p = ''T'',
      actions = Some [\<lparr>label = ''OK'', fn = 1\<rparr>], timeout = Some (Finite 5), onTimeout = 2\<rparr>"

definition example_handle :: ProgressNotificationImpl where
  "example_handle = \<lparr>node = 0, properties = example_props\<rparr>"

definition example_created :: state where
  "example_created = step Notifications_new (Create example_props)"

definition example_shown :: state where
  "example_shown = show_h example_handle example_created"

definition example_closed :: state where
  "example_closed = close example_handle example_shown"

definition example_reshown :: state where
  "example_reshown = show_h example_handle example_closed"

text \<open>A second notification: no timeout, no actions, an icon other than \<open>progress\<close>.\<close>

definition plain_props :: NotificationProperties where
  "plain_props =
     \<lparr>id_p = ''n2'', icon = ''info'', text_p = ''hello'',
      actions = None, timeout = None, onTimeout = 3\<rparr>"

definition plain_handle :: ProgressNotificationImpl where
  "plain_handle = \<lparr>node = 0, properties = plain_props\<rparr>"

definition plain_shown :: state where
  "plain_shown = step Notifications_new (Show plain_props)"

definition plain_created :: state where
  "plain_created = step Notifications_new (Create plain_props)"

text \<open>A third notification, whose timeout of \<open>2^31\<close> milliseconds no longer fits the delay
  of a timer.\<close>

definition long_props :: NotificationProperties where
  "long_props =
     \<lparr>id_p = ''n3'', icon = ''warning'', text_p = ''later'',
      actions = None, timeout = Some (Finite 2147483648), onTimeout = 4\<rparr>"

definition long_shown :: state where
  "long_shown = step Notifications_new (Show long_props)"

subsection \<open>Well-formed states\<close>

text \<open>
  What holds in every state a notifications object can reach. Timers: a pending timer
  is the one its closure remembers in \<open>closeTimer\<close>; a remembered handle has been
  handed out, belongs to a subscribed closure, and is remembered by one closure only.
  Elements: every element in use has been built; a built element is subscribed exactly
  when its timeout is positive, and has a progress element exactly when its icon is
  \<open>progress\<close>.
\<close>

definition timers_inv :: "state \<Rightarrow> bool" where
  "timers_inv s =
     ((\<forall>h e d. timers s h = Some (e, d) \<longrightarrow> closeTimer s e = Some h)
      \<and> (\<forall>e h. closeTimer s e = Some h \<longrightarrow> h \<le> timer_count s \<and> e \<in> set (listeners s))
      \<and> (\<forall>e e' h. closeTimer s e = Some h \<and> closeTimer s e' = Some h \<longrightarrow> e = e'))"

definition elems_inv :: "state \<Rightarrow> bool" where
  "elems_inv s =
     ((\<forall>e el. elems s e = Some el \<longrightarrow>
          e < next_elem s
          \<and> (e \<in> set (listeners s)) = timeout_armed (props el)
          \<and> (progress_innerText el \<noteq> None) = (icon (props el) = PROGRESS))
      \<and> (\<forall>e. e \<in> set (listeners s) \<or> e \<in> set (container s) \<or> e \<in> fragments s
             \<longrightarrow> elems s e \<noteq> None))"

definition wf_state :: "state \<Rightarrow> bool" where
  "wf_state s = (timers_inv s \<and> elems_inv s)"

subsection \<open>Notions used to state the properties\<close>

text \<open>The closure of element \<open>e\<close> holds a pending timer due at \<open>d\<close> whose handle was
  handed out after the count \<open>c\<close>.\<close>

definition armed_at :: "nat \<Rightarrow> millis \<Rightarrow> nat \<Rightarrow> state \<Rightarrow> bool" where
  "armed_at e d c s =
     (\<exists>h. c < h \<and> closeTimer s e = Some h \<and> timers s h = Some (e, d))"

text \<open>
  Between \<open>s\<close> and \<open>s'\<close> the timer of element \<open>e\<close> has been re-armed with the delay \<open>D\<close>:
  in \<open>s'\<close> the closure of \<open>e\<close> remembers a handle handed out after \<open>s\<close>, that timer is
  pending and due \<open>D\<close> after the time of \<open>s\<close>, it is the only pending timer of \<open>e\<close>, and
  every timer of \<open>e\<close> that was pending in \<open>s\<close> is gone.
\<close>

definition rearmed :: "nat \<Rightarrow> millis \<Rightarrow> state \<Rightarrow> state \<Rightarrow> bool" where
  "rearmed e D s s' =
     (\<exists>h. timer_count s < h
        \<and> closeTimer s' e = Some h
        \<and> timers s' h = Some (e, now s + D)
        \<and> (\<forall>h' d. timers s' h' = Some (e, d) \<longrightarrow> h' = h)
        \<and> (\<forall>h' d. timers s h' = Some (e, d) \<longrightarrow> timers s' h' = None))"

text \<open>The events that dismiss element \<open>e\<close> explicitly: a close on a handle, a click on
  one of its buttons.\<close>

fun dismisses :: "nat \<Rightarrow> event \<Rightarrow> bool" where
  "dismisses e (HClose h) = True"
| "dismisses e (Click e' k) = (e' = e)"
| "dismisses e ev = False"

text \<open>The event is a call of show on a handle of the fragment \<open>e\<close>.\<close>

fun shows_handle :: "nat \<Rightarrow> event \<Rightarrow> bool" where
  "shows_handle e (HShow h) = (node h = e)"
| "shows_handle e ev = False"

section \<open>Properties\<close>

subsection \<open>Doubles, evaluated\<close>

lemma round_half_even_eval:
  assumes "of_int m - 1 / 2 < y" and "y < of_int m + 1 / 2"
  shows "round_half_even y = m"
proof -
  have "\<lfloor>y\<rfloor> = m \<or> \<lfloor>y\<rfloor> = m - 1"
    using assms by linarith
  then show ?thesis
  proof
    assume f: "\<lfloor>y\<rfloor> = m"
    have "y - of_int m < 1 / 2" using assms by linarith
    then show ?thesis using f by (simp add: round_half_even_def Let_def)
  next
    assume f: "\<lfloor>y\<rfloor> = m - 1"
    have "1 / 2 < y - of_int (m - 1)" using assms by simp
    then show ?thesis using f by (simp add: round_half_even_def Let_def)
  qed
qed

lemma round_double_eval:
  assumes "0 < r" and "floor_log2 r = e" and "- 1022 \<le> e"
    and "of_int m - 1 / 2 < r / pow2 (e - 52)" and "r / pow2 (e - 52) < of_int m + 1 / 2"
    and "of_int m * pow2 (e - 52) = v"
    and "floor_log2 v < 1024" and "v \<noteq> 0"
  shows "round_double r = Finite v"
proof -
  have "round_half_even (r / pow2 (e - 52)) = m"
    using assms(4,5) by (rule round_half_even_eval)
  then show ?thesis
    using assms(1,2,3,6,7,8) by (auto simp: round_double_def Let_def max_def)
qed

lemmas round_simps = floor_log2.simps pow2_def

lemma round_double_quarter: "round_double (1 / 4) = Finite (1 / 4)"
  by (rule round_double_eval [where e = "- 2" and m = "2 ^ 52"]) (simp_all add: round_simps)

lemma round_double_1: "round_double 1 = Finite 1"
  by (rule round_double_eval [where e = 0 and m = "2 ^ 52"]) (simp_all add: round_simps)

lemma round_double_20: "round_double 20 = Finite 20"
  by (rule round_double_eval [where e = 4 and m = "20 * 2 ^ 48"]) (simp_all add: round_simps)

lemma round_double_25: "round_double 25 = Finite 25"
  by (rule round_double_eval [where e = 4 and m = "25 * 2 ^ 48"]) (simp_all add: round_simps)

lemma round_double_30: "round_double 30 = Finite 30"
  by (rule round_double_eval [where e = 4 and m = "30 * 2 ^ 48"]) (simp_all add: round_simps)

lemma round_double_100: "round_double 100 = Finite 100"
  by (rule round_double_eval [where e = 6 and m = "100 * 2 ^ 46"]) (simp_all add: round_simps)

lemma round_double_200: "round_double 200 = Finite 200"
  by (rule round_double_eval [where e = 7 and m = "200 * 2 ^ 45"]) (simp_all add: round_simps)

lemma round_double_29_100:
  "round_double (29 / 100) = Finite (5224175567749775 / 18014398509481984)"
  by (rule round_double_eval [where e = "- 2" and m = 5224175567749775])
    (simp_all add: round_simps)

lemma round_double_29:
  "round_double (130604389193744375 / 4503599627370496)
     = Finite (8162774324609023 / 281474976710656)"
  by (rule round_double_eval [where e = 4 and m = 8162774324609023])
    (simp_all add: round_simps)

lemma floor_29: "\<lfloor>8162774324609023 / 281474976710656 :: rat\<rfloor> = 28"
  by (rule floor_unique) simp_all

lemmas string_defs = integer_to_string_def rounds_to_def digit_def digits.simps
  strip_zeros.simps Let_def numeral_2_eq_2

lemma integer_to_string_25: "integer_to_string 25 = ''25''"
  by (simp add: string_defs round_double_20 round_double_30)

lemma integer_to_string_28: "integer_to_string 28 = ''28''"
  by (simp add: string_defs round_double_20 round_double_30)

lemma integer_to_string_100: "integer_to_string 100 = ''100''"
  by (simp add: string_defs round_double_100 round_double_200)

subsection \<open>The example states, evaluated\<close>

lemmas create_defs =
  Notifications_create_def createNotificationElement_def classList_add_def toIconClass_def
  PROGRESS_def NOTIFICATION_def ICON_def ascii_whitespace_def add_token_def timeout_armed_def js_truthy_def js_gt_zero_def is_zero_def
  Let_def

lemma create_example:
  "Notifications_create Notifications_new example_props = Inr (example_handle, example_created)"
  by (simp add: example_created_def create_defs example_props_def example_handle_def
      Notifications_new_def)

lemma example_created_fields:
  "elems example_created =
     (\<lambda>_. None)(0 \<mapsto> \<lparr>props = example_props,
        element_classes = [''theia-Notification''],
        icon_container_classes = [''icon''],
        icon_classes = [''fa'', ''fa-spinner'', ''fa-pulse'', ''fa-fw'', ''progress''],
        progress_innerText = Some [],
        text_innerText = ''T'',
        button_labels = [''OK'']\<rparr>)"
  "next_elem example_created = 1"
  "container example_created = []"
  "fragments example_created = {0}"
  "listeners example_created = [0]"
  "closeTimer example_created = (\<lambda>_. None)"
  "timers example_created = (\<lambda>_. None)"
  "timer_count example_created = 0"
  "now example_created = 0"
  "log example_created = []"
  by (simp_all add: example_created_def create_defs example_props_def Notifications_new_def)

lemma example_shown_fields:
  "elems example_shown = elems example_created"
  "next_elem example_shown = 1"
  "container example_shown = [0]"
  "fragments example_shown = {}"
  "listeners example_shown = [0]"
  "closeTimer example_shown = (\<lambda>_. None)(0 \<mapsto> 1)"
  "timers example_shown = (\<lambda>_. None)(1 \<mapsto> (0, 5))"
  "timer_count example_shown = 1"
  "now example_shown = 0"
  "log example_shown = [ShownEvent ''n1'']"
  by (simp_all add: example_shown_def show_h_def getContainerById_def example_created_fields
      example_handle_def fire_def listener_def appendChild_fragment_def setTimeout_def
      timer_delay_def to_long_def example_props_def Let_def)

lemma example_closed_fields:
  "elems example_closed = elems example_created"
  "next_elem example_closed = 1"
  "container example_closed = []"
  "fragments example_closed = {}"
  "listeners example_closed = [0]"
  "closeTimer example_closed = (\<lambda>_. None)(0 \<mapsto> 1)"
  "timers example_closed = (\<lambda>_. None)(1 \<mapsto> (0, 5))"
  "timer_count example_closed = 1"
  "now example_closed = 0"
  "log example_closed = [ShownEvent ''n1'', ElementRemove 0]"
  by (simp_all add: example_closed_def close_def getContainerById_def has_id_def
      example_shown_fields example_created_fields example_handle_def element_remove_def
      example_props_def)

lemma example_reshown_fields:
  "elems example_reshown = elems example_created"
  "next_elem example_reshown = 1"
  "container example_reshown = []"
  "fragments example_reshown = {}"
  "listeners example_reshown = [0]"
  "closeTimer example_reshown = (\<lambda>_. None)(0 \<mapsto> 2)"
  "timers example_reshown = (\<lambda>_. None)(2 \<mapsto> (0, 5))"
  "timer_count example_reshown = 2"
  "now example_reshown = 0"
  "log example_reshown = [ShownEvent ''n1'', ElementRemove 0, ShownEvent ''n1'']"
  by (simp_all add: example_reshown_def show_h_def getContainerById_def
      example_closed_fields example_created_fields example_handle_def fire_def listener_def
      appendChild_fragment_def setTimeout_def clearTimeout_def timer_delay_def to_long_def
      example_props_def Let_def numeral_2_eq_2)

subsection \<open>Lookups and the texts written by update\<close>

lemma find_has_id:
  "List.find (has_id s i) xs = Some e \<Longrightarrow> \<exists>el. elems s e = Some el \<and> id_p (props el) = i"
  by (auto simp: find_Some_iff has_id_def split: option.splits)

lemma elems_set_text:
  "elems (set_text e t s) x =
     (if x = e then map_option (\<lambda>el. el\<lparr>text_innerText := t\<rparr>) (elems s e) else elems s x)"
  by (simp add: set_text_def split: option.splits)

lemma elems_set_progress:
  "elems (set_progress e t s) x =
     (if x = e then map_option (\<lambda>el. el\<lparr>progress_innerText := Some t\<rparr>) (elems s e)
      else elems s x)"
  by (simp add: set_progress_def split: option.splits)

lemma container_set_text [simp]: "container (set_text e t s) = container s"
  by (simp add: set_text_def split: option.splits)

lemma container_set_progress [simp]: "container (set_progress e t s) = container s"
  by (simp add: set_progress_def split: option.splits)

lemma has_id_set_text [simp]: "has_id (set_text e t s) i x = has_id s i x"
  by (simp add: has_id_def elems_set_text split: option.splits)

lemma has_id_set_progress [simp]: "has_id (set_progress e t s) i x = has_id s i x"
  by (simp add: has_id_def elems_set_progress split: option.splits)

lemma has_id_update [simp]: "has_id (update h item s) i x = has_id s i x"
  by (simp add: update_def Let_def split: option.splits)

lemma container_update [simp]: "container (update h item s) = container s"
  by (simp add: update_def Let_def split: option.splits)

lemma getTextById_update [simp]: "getTextById (update h item s) i = getTextById s i"
proof -
  have "has_id (update h item s) i = has_id s i" by (rule ext) simp
  then show ?thesis by (simp add: getTextById_def)
qed

lemma update_text:
  assumes "getTextById s (id_p (properties h)) = Some te"
  shows "map_option text_innerText (elems (update h item s) te)
           = Some (text_p (properties h) @ message_suffix item)"
proof -
  obtain el where el: "elems s te = Some el"
    using assms find_has_id unfolding getTextById_def by blast
  then show ?thesis using assms
    by (auto simp: update_def Let_def elems_set_text elems_set_progress split: option.splits)
qed

lemma update_progress:
  assumes "getTextById s (id_p (properties h)) = Some te"
    and "getProgressById s (id_p (properties h)) = Some pe"
    and "work item = Some w"
  shows "Option.bind (elems (update h item s) pe) progress_innerText = Some (progress_text w)"
proof -
  have "has_id s (id_p (properties h)) pe"
    using assms(2) by (auto simp: getProgressById_def find_Some_iff)
  then obtain el where el: "elems s pe = Some el"
    by (auto simp: has_id_def split: option.splits)
  then show ?thesis using assms
    by (auto simp: update_def Let_def elems_set_text elems_set_progress split: option.splits)
qed

lemma getTextById_example_shown:
  "getTextById example_shown (id_p (properties example_handle)) = Some 0"
  by (simp add: getTextById_def has_id_def example_shown_fields example_created_fields
      example_handle_def)

lemma getProgressById_example_shown:
  "getProgressById example_shown (id_p (properties example_handle)) = Some 0"
  by (simp add: getProgressById_def has_id_def has_progress_def example_shown_fields
      example_created_fields example_handle_def)

subsection \<open>The text and the percentage rendered by update\<close>

text \<open>
  C5, amended. Whenever the text element of the handle's id is found in the document,
  update writes into it the text of the handle's properties, followed by a colon, a space and
  the message when the message is a non-empty string, and by nothing otherwise. The
  result does not depend on the text written by an earlier update: after two updates
  the text is the creation-time text with the suffix of the last one.
\<close>

theorem update_rewrites_text_from_properties:
  assumes "getTextById s (id_p (properties h)) = Some te"
  shows "map_option text_innerText (elems (update h item s) te)
           = Some (text_p (properties h) @ message_suffix item)
       \<and> map_option text_innerText (elems (update h item' (update h item s)) te)
           = Some (text_p (properties h) @ message_suffix item')
       \<and> message_suffix \<lparr>message = Some (c # m), work = w\<rparr> = '': '' @ c # m
       \<and> message_suffix \<lparr>message = Some [], work = w\<rparr> = []
       \<and> message_suffix \<lparr>message = None, work = w\<rparr> = []"
proof -
  have "getTextById (update h item s) (id_p (properties h)) = Some te"
    using assms by simp
  then show ?thesis
    using assms by (simp add: update_text message_suffix_def)
qed

theorem update_rewrites_text_from_properties_witness:
  "map_option text_innerText
     (elems (update example_handle \<lparr>message = Some ''m'', work = None\<rparr> example_shown) 0)
     = Some ''T: m''
   \<and> map_option text_innerText
     (elems (update example_handle \<lparr>message = None, work = None\<rparr>
        (update example_handle \<lparr>message = Some ''m'', work = None\<rparr> example_shown)) 0)
     = Some ''T''"
  using update_rewrites_text_from_properties [OF getTextById_example_shown,
      of "\<lparr>message = Some ''m'', work = None\<rparr>" "\<lparr>message = None, work = None\<rparr>"]
  by (simp add: message_suffix_def example_handle_def example_props_def)

lemma plain_created_fields:
  "elems plain_created 0 =
     Some \<lparr>props = plain_props,
        element_classes = [''theia-Notification''],
        icon_container_classes = [''icon''],
        icon_classes = [''fa'', ''fa-info-circle'', ''fa-fw'', ''info''],
        progress_innerText = None,
        text_innerText = ''hello'',
        button_labels = []\<rparr>"
  "container plain_created = []"
  "fragments plain_created = {0}"
  by (simp_all add: plain_created_def create_defs plain_props_def Notifications_new_def)

text \<open>
  C5, as the code has it. Not every update rewrites the text: after create with the
  text hello and no show, update with the message m finds no text element in the
  document and the node's text is still hello, not hello: m.
\<close>

theorem update_text_counterexample:
  "map_option text_innerText
     (elems (update plain_handle \<lparr>message = Some ''m'', work = None\<rparr> plain_created) 0)
     = Some ''hello''
   \<and> text_p (properties plain_handle) @ message_suffix \<lparr>message = Some ''m'', work = None\<rparr>
       = ''hello: m''"
proof -
  have "getTextById plain_created (id_p (properties plain_handle)) = None"
    by (simp add: getTextById_def plain_created_fields)
  then have "update plain_handle \<lparr>message = Some ''m'', work = None\<rparr> plain_created
      = plain_created"
    by (simp add: update_def)
  then show ?thesis
    by (simp add: plain_created_fields message_suffix_def plain_handle_def plain_props_def)
qed

lemma progress_text_quarter: "progress_text \<lparr>done_w = Finite 1, total_w = Finite 4\<rparr> = ''25%''"
  by (simp add: progress_text_def js_div_def js_mul_def js_floor_def number_to_string_def
      is_inf_def is_zero_def value_of_def
      round_double_quarter round_double_25 integer_to_string_25)

lemma progress_text_whole: "progress_text \<lparr>done_w = Finite 3, total_w = Finite 3\<rparr> = ''100%''"
  by (simp add: progress_text_def js_div_def js_mul_def js_floor_def number_to_string_def
      is_inf_def is_zero_def value_of_def
      round_double_1 round_double_100 integer_to_string_100)

lemma progress_text_29: "progress_text \<lparr>done_w = Finite 29, total_w = Finite 100\<rparr> = ''28%''"
  by (simp add: progress_text_def js_div_def js_mul_def js_floor_def number_to_string_def
      is_inf_def is_zero_def value_of_def
      round_double_29_100 round_double_29 floor_29 integer_to_string_28)

text \<open>
  C4, as the code has it. Not every update that carries work sets the progress text:
  on the handle just created, before its first show, the progress element keeps its
  empty text. And where the text is set, the percentage is computed in doubles: work of
  29 out of 100 on the shown notification renders 28%, since 29 / 100 * 100 is
  28.999999999999996 there.
\<close>

theorem update_percentage_counterexample:
  "Option.bind
     (elems (update example_handle
        \<lparr>message = None, work = Some \<lparr>done_w = Finite 1, total_w = Finite 4\<rparr>\<rparr> example_created) 0)
     progress_innerText = Some []
   \<and> Option.bind
     (elems (update example_handle
        \<lparr>message = None, work = Some \<lparr>done_w = Finite 29, total_w = Finite 100\<rparr>\<rparr> example_shown) 0)
     progress_innerText = Some ''28%''"
proof -
  have "getTextById example_created (id_p (properties example_handle)) = None"
    by (simp add: getTextById_def example_created_fields)
  then have "update example_handle
      \<lparr>message = None, work = Some \<lparr>done_w = Finite 1, total_w = Finite 4\<rparr>\<rparr> example_created
      = example_created"
    by (simp add: update_def)
  then have a: "Option.bind
     (elems (update example_handle
        \<lparr>message = None, work = Some \<lparr>done_w = Finite 1, total_w = Finite 4\<rparr>\<rparr> example_created) 0)
     progress_innerText = Some []"
    by (simp add: example_created_fields)
  have b: "Option.bind
     (elems (update example_handle
        \<lparr>message = None, work = Some \<lparr>done_w = Finite 29, total_w = Finite 100\<rparr>\<rparr> example_shown) 0)
     progress_innerText = Some ''28%''"
    using update_progress [OF getTextById_example_shown getProgressById_example_shown,
        of "\<lparr>message = None, work = Some \<lparr>done_w = Finite 29, total_w = Finite 100\<rparr>\<rparr>"
        "\<lparr>done_w = Finite 29, total_w = Finite 100\<rparr>"]
    by (simp add: progress_text_29)
  show ?thesis using a b by simp
qed

text \<open>
  C4, amended. Whenever the text element and the progress element of the handle's id
  are found in the document and the argument of update carries work, the progress
  element's text becomes the percentage text: the string of
  Math.floor(done / total * 100), each operation rounded to a double, followed by the
  percent sign. Work of 1 out of 4 renders 25%, work of 3 out of 3 renders 100%, work
  of 29 out of 100 renders 28%.
\<close>

theorem update_writes_floor_percentage:
  assumes "getTextById s (id_p (properties h)) = Some te"
    and "getProgressById s (id_p (properties h)) = Some pe"
    and "work item = Some w"
  shows "Option.bind (elems (update h item s) pe) progress_innerText = Some (progress_text w)
       \<and> progress_text w
           = number_to_string
               (js_floor (js_mul (js_div (done_w w) (total_w w)) (Finite 100))) @ ''%''
       \<and> progress_text \<lparr>done_w = Finite 1, total_w = Finite 4\<rparr> = ''25%''
       \<and> progress_text \<lparr>done_w = Finite 3, total_w = Finite 3\<rparr> = ''100%''
       \<and> progress_text \<lparr>done_w = Finite 29, total_w = Finite 100\<rparr> = ''28%''"
  using update_progress [OF assms]
  by (simp add: progress_text_quarter progress_text_whole progress_text_29)
    (simp add: progress_text_def)

theorem update_writes_floor_percentage_witness:
  "Option.bind
     (elems (update example_handle
        \<lparr>message = None, work = Some \<lparr>done_w = Finite 1, total_w = Finite 4\<rparr>\<rparr> example_shown) 0)
     progress_innerText = Some ''25%''
   \<and> Option.bind
     (elems (update example_handle
        \<lparr>message = None, work = Some \<lparr>done_w = Finite 3, total_w = Finite 3\<rparr>\<rparr> example_shown) 0)
     progress_innerText = Some ''100%''"
  using update_writes_floor_percentage [OF getTextById_example_shown
      getProgressById_example_shown, of "\<lparr>message = None, work = Some \<lparr>done_w = Finite 1, total_w = Finite 4\<rparr>\<rparr>"
      "\<lparr>done_w = Finite 1, total_w = Finite 4\<rparr>"]
    update_writes_floor_percentage [OF getTextById_example_shown
      getProgressById_example_shown, of "\<lparr>message = None, work = Some \<lparr>done_w = Finite 3, total_w = Finite 3\<rparr>\<rparr>"
      "\<lparr>done_w = Finite 3, total_w = Finite 3\<rparr>"]
  by simp

subsection \<open>The delay of a timer\<close>

lemma timer_delay_nonneg: "0 \<le> timer_delay T"
  by (simp add: timer_delay_def)

lemma timer_delay_whole:
  assumes "0 \<le> n" and "n < 2147483648"
  shows "timer_delay (Finite (of_int n)) = of_int n"
proof -
  have "n mod 4294967296 = n" using assms by simp
  then show ?thesis using assms by (simp add: timer_delay_def to_long_def Let_def)
qed

lemma timer_delay_5: "timer_delay (Finite 5) = 5"
  using timer_delay_whole [of 5] by simp

lemma timer_delay_2pow31: "timer_delay (Finite 2147483648) = 0"
  by (simp add: timer_delay_def to_long_def Let_def)

subsection \<open>What the listeners of the shown event change\<close>

lemma listener_frame [simp]:
  "elems (listener e i s) = elems s"
  "next_elem (listener e i s) = next_elem s"
  "container (listener e i s) = container s"
  "fragments (listener e i s) = fragments s"
  "listeners (listener e i s) = listeners s"
  "now (listener e i s) = now s"
  "log (listener e i s) = log s"
  by (simp_all add: listener_def setTimeout_def clearTimeout_def Let_def split: option.splits)

lemma fold_listener_frame [simp]:
  "elems (fold (\<lambda>e. listener e i) L s) = elems s"
  "next_elem (fold (\<lambda>e. listener e i) L s) = next_elem s"
  "container (fold (\<lambda>e. listener e i) L s) = container s"
  "fragments (fold (\<lambda>e. listener e i) L s) = fragments s"
  "listeners (fold (\<lambda>e. listener e i) L s) = listeners s"
  "now (fold (\<lambda>e. listener e i) L s) = now s"
  "log (fold (\<lambda>e. listener e i) L s) = log s"
  by (induction L arbitrary: s; simp)+

lemma fire_frame [simp]:
  "elems (fire i s) = elems s"
  "next_elem (fire i s) = next_elem s"
  "container (fire i s) = container s"
  "fragments (fire i s) = fragments s"
  "listeners (fire i s) = listeners s"
  "now (fire i s) = now s"
  "log (fire i s) = log s @ [ShownEvent i]"
  by (simp_all add: fire_def)

lemma timers_inv_listener:
  assumes "timers_inv s" and "e \<in> set (listeners s)"
  shows "timers_inv (listener e i s)"
proof (cases "elems s e")
  case None
  then show ?thesis using assms by (simp add: listener_def)
next
  case (Some el)
  show ?thesis
  proof (cases "id_p (props el) = i \<and> timeout (props el) \<noteq> None")
    case False
    then show ?thesis using assms Some by (auto simp: listener_def split: option.splits)
  next
    case True
    then obtain T where T: "timeout (props el) = Some T" by auto
    show ?thesis
    proof (cases "closeTimer s e")
      case None
      then have eq: "listener e i s =
          s\<lparr>timers := (timers s)(Suc (timer_count s) \<mapsto> (e, now s + timer_delay T)),
            timer_count := Suc (timer_count s),
            closeTimer := (closeTimer s)(e \<mapsto> Suc (timer_count s))\<rparr>"
        using Some True T by (simp add: listener_def setTimeout_def Let_def)
      show ?thesis unfolding eq using assms None
        unfolding timers_inv_def by (auto split: if_splits) fastforce+
    next
      case (Some h0)
      then have eq: "listener e i s =
          s\<lparr>timers := ((timers s)(h0 := None))(Suc (timer_count s) \<mapsto> (e, now s + timer_delay T)),
            timer_count := Suc (timer_count s),
            closeTimer := (closeTimer s)(e \<mapsto> Suc (timer_count s))\<rparr>"
        using \<open>elems s e = Some el\<close> True T
        by (simp add: listener_def setTimeout_def clearTimeout_def Let_def)
      show ?thesis unfolding eq using assms Some
        unfolding timers_inv_def by (auto split: if_splits) fastforce+
    qed
  qed
qed

lemma timers_inv_fold_listener:
  "timers_inv s \<Longrightarrow> set L \<subseteq> set (listeners s) \<Longrightarrow> timers_inv (fold (\<lambda>e. listener e i) L s)"
  by (induction L arbitrary: s) (simp_all add: timers_inv_listener)

lemma timers_inv_log [simp]: "timers_inv (s\<lparr>log := l\<rparr>) = timers_inv s"
  by (simp add: timers_inv_def)

lemma elems_inv_log [simp]: "elems_inv (s\<lparr>log := l\<rparr>) = elems_inv s"
  by (simp add: elems_inv_def)

lemma timers_inv_fire: "timers_inv s \<Longrightarrow> timers_inv (fire i s)"
  unfolding fire_def by (rule timers_inv_fold_listener) simp_all

lemma elems_inv_cong:
  "elems s' = elems s \<Longrightarrow> next_elem s' = next_elem s \<Longrightarrow> listeners s' = listeners s \<Longrightarrow>
   container s' = container s \<Longrightarrow> fragments s' = fragments s \<Longrightarrow> elems_inv s' = elems_inv s"
  by (simp add: elems_inv_def)

lemma elems_inv_fire: "elems_inv (fire i s) = elems_inv s"
  by (rule elems_inv_cong) simp_all

lemma wf_state_fire: "wf_state s \<Longrightarrow> wf_state (fire i s)"
  by (simp add: wf_state_def timers_inv_fire elems_inv_fire)

lemma wf_state_appendChild_fragment: "wf_state s \<Longrightarrow> wf_state (appendChild_fragment e s)"
  by (auto simp: wf_state_def appendChild_fragment_def timers_inv_def elems_inv_def)

lemma wf_state_element_remove: "wf_state s \<Longrightarrow> wf_state (element_remove e s)"
  by (auto simp: wf_state_def element_remove_def timers_inv_def elems_inv_def)

lemma wf_state_clearTimeout: "wf_state s \<Longrightarrow> wf_state (clearTimeout h s)"
  by (auto simp: wf_state_def clearTimeout_def timers_inv_def elems_inv_def split: if_splits)

lemma wf_state_advance: "wf_state s \<Longrightarrow> wf_state (advance d s)"
  by (auto simp: wf_state_def advance_def timers_inv_def elems_inv_def)

lemma wf_state_new: "wf_state Notifications_new"
  by (simp add: wf_state_def timers_inv_def elems_inv_def Notifications_new_def)

lemma createNotificationElement_Inr:
  assumes "createNotificationElement s p = Inr (e, s')"
  shows "e = next_elem s"
    and "\<exists>el. elems s' e = Some el \<and> props el = p \<and> text_innerText el = text_p p
            \<and> progress_innerText el = (if icon p = PROGRESS then Some [] else None)"
    and "\<And>x. x \<noteq> e \<Longrightarrow> elems s' x = elems s x"
    and "next_elem s' = Suc (next_elem s)"
    and "container s' = container s"
    and "fragments s' = insert e (fragments s)"
    and "listeners s' = (if timeout_armed p then listeners s @ [e] else listeners s)"
    and "closeTimer s' = closeTimer s"
    and "timers s' = timers s"
    and "timer_count s' = timer_count s"
    and "now s' = now s"
    and "log s' = log s"
  using assms
  by (auto simp: createNotificationElement_def Let_def split: sum.splits if_splits)

lemma wf_state_createNotificationElement:
  assumes "wf_state s" and "createNotificationElement s p = Inr (e, s')"
  shows "wf_state s'"
proof -
  note c = createNotificationElement_Inr [OF assms(2)]
  obtain el where el: "elems s' e = Some el" "props el = p"
      "progress_innerText el = (if icon p = PROGRESS then Some [] else None)"
    using c(2) by blast
  have other: "\<And>x. elems s' x = (if x = e then Some el else elems s x)"
    using c(3) el(1) by simp
  have fresh: "elems s e = None" "e \<notin> set (listeners s)"
    using assms(1) c(1) unfolding wf_state_def elems_inv_def
    by (cases "elems s e"; fastforce)+
  have "timers_inv s'"
    using assms(1) unfolding wf_state_def timers_inv_def
    by (auto simp: c(7,8,9,10))
  moreover have "elems_inv s'"
    using assms(1) fresh unfolding wf_state_def elems_inv_def
    by (auto simp: c(1,4,5,6,7) el(2,3) other less_Suc_eq split: if_splits)
  ultimately show ?thesis by (simp add: wf_state_def)
qed

lemma wf_state_show:
  assumes "wf_state s" and "Notifications_show s p = Inr s'"
  shows "wf_state s'"
  using assms
  by (auto simp: Notifications_show_def split: sum.splits
      intro!: wf_state_fire wf_state_appendChild_fragment
      elim: wf_state_createNotificationElement)

lemma wf_state_create:
  assumes "wf_state s" and "Notifications_create s p = Inr (h, s')"
  shows "wf_state s'"
  using assms
  by (auto simp: Notifications_create_def split: sum.splits
      elim: wf_state_createNotificationElement)

lemma wf_state_show_h: "wf_state s \<Longrightarrow> wf_state (show_h h s)"
  by (auto simp: show_h_def split: option.splits
      intro!: wf_state_fire wf_state_appendChild_fragment)

lemma wf_state_close: "wf_state s \<Longrightarrow> wf_state (close h s)"
  by (auto simp: close_def split: option.splits intro!: wf_state_element_remove)

lemma wf_state_click: "wf_state s \<Longrightarrow> wf_state (click e k s)"
proof -
  assume wf: "wf_state s"
  have a: "\<And>s l. wf_state s \<Longrightarrow> wf_state (s\<lparr>log := l\<rparr>)"
    by (simp add: wf_state_def)
  show ?thesis using wf
    by (auto simp: click_def Let_def split: option.splits
        intro!: wf_state_element_remove a wf_state_clearTimeout)
qed

lemma wf_state_timer_fires: "wf_state s \<Longrightarrow> wf_state (timer_fires h s)"
proof -
  assume wf: "wf_state s"
  have a: "\<And>l. wf_state (s\<lparr>timers := (timers s)(h := None), log := l\<rparr>)"
    using wf by (auto simp: wf_state_def timers_inv_def elems_inv_def split: if_splits)
  show ?thesis using wf
    by (auto simp: timer_fires_def Let_def split: option.splits
        intro!: wf_state_element_remove a)
qed

lemma wf_state_update: "wf_state s \<Longrightarrow> wf_state (update h item s)"
proof -
  assume wf: "wf_state s"
  have t: "\<And>s e t. wf_state s \<Longrightarrow> wf_state (set_text e t s)"
    by (auto simp: wf_state_def timers_inv_def elems_inv_def set_text_def
        split: option.splits if_splits)
  have p: "\<And>e t. has_progress s e \<Longrightarrow> wf_state (set_progress e t s)"
    using wf by (auto simp: wf_state_def timers_inv_def elems_inv_def set_progress_def
        has_progress_def split: option.splits if_splits)
  have "\<And>pe i. getProgressById s i = Some pe \<Longrightarrow> has_progress s pe"
    by (auto simp: getProgressById_def find_Some_iff)
  then show ?thesis using wf
    by (auto simp: update_def Let_def split: option.splits intro!: t p)
qed

lemma wf_state_step: "wf_state s \<Longrightarrow> wf_state (step s ev)"
  by (cases ev)
    (auto split: sum.splits
      intro: wf_state_show wf_state_create wf_state_show_h wf_state_close wf_state_update
        wf_state_click wf_state_timer_fires wf_state_advance)

lemma wf_state_run: "wf_state s \<Longrightarrow> wf_state (run s evs)"
  unfolding run_def by (induction evs arbitrary: s) (simp_all add: wf_state_step)

lemma run_append: "run s (evs @ evs') = run (run s evs) evs'"
  by (simp add: run_def)

lemma wf_state_reachable: "wf_state (run Notifications_new evs)"
  by (rule wf_state_run) (rule wf_state_new)

subsection \<open>Arming the timer on the shown event\<close>

lemma listener_timer_count: "timer_count s \<le> timer_count (listener e i s)"
  by (simp add: listener_def setTimeout_def clearTimeout_def Let_def split: option.splits)

lemma fold_listener_timer_count: "timer_count s \<le> timer_count (fold (\<lambda>e. listener e i) L s)"
proof (induction L arbitrary: s)
  case Nil
  show ?case by simp
next
  case (Cons x xs)
  have "timer_count s \<le> timer_count (listener x i s)" by (rule listener_timer_count)
  also have "\<dots> \<le> timer_count (fold (\<lambda>e. listener e i) xs (listener x i s))" by (rule Cons.IH)
  finally show ?case by simp
qed

lemma listener_old_handles:
  assumes "h \<le> timer_count s"
  shows "timers (listener e i s) h = Some x \<Longrightarrow> timers s h = Some x"
    and "closeTimer (listener e i s) e' = Some h \<Longrightarrow> closeTimer s e' = Some h"
  using assms
  by (auto simp: listener_def setTimeout_def clearTimeout_def Let_def
      split: option.splits if_splits)

lemma fold_listener_old_handles:
  assumes "h \<le> timer_count s"
  shows "(timers (fold (\<lambda>e. listener e i) L s) h = Some x \<longrightarrow> timers s h = Some x)
       \<and> (closeTimer (fold (\<lambda>e. listener e i) L s) e' = Some h \<longrightarrow> closeTimer s e' = Some h)"
  using assms
proof (induction L arbitrary: s)
  case Nil
  show ?case by simp
next
  case (Cons y ys)
  have "h \<le> timer_count (listener y i s)"
    using Cons.prems listener_timer_count [of s y i] by simp
  from Cons.IH [OF this] show ?case
    using listener_old_handles(1) [OF Cons.prems, of y i x]
      listener_old_handles(2) [OF Cons.prems, of y i e']
    by simp
qed

lemma listener_arms:
  assumes "elems s e = Some el" and "id_p (props el) = i" and "timeout (props el) = Some T"
    and "c \<le> timer_count s"
  shows "armed_at e (now s + timer_delay T) c (listener e i s)"
  using assms
  by (auto simp: armed_at_def listener_def setTimeout_def clearTimeout_def Let_def
      split: option.splits)

lemma listener_keeps_armed:
  assumes "timers_inv s" and "e' \<noteq> e" and "armed_at e d c s"
  shows "armed_at e d c (listener e' i s)"
proof -
  obtain h where h: "c < h" "closeTimer s e = Some h" "timers s h = Some (e, d)"
    using assms(3) by (auto simp: armed_at_def)
  have le: "h \<le> timer_count s" and other: "closeTimer s e' \<noteq> Some h"
    using assms(1,2) h(2) unfolding timers_inv_def by blast+
  have "closeTimer (listener e' i s) e = Some h \<and> timers (listener e' i s) h = Some (e, d)"
    using h le other assms(2)
    by (auto simp: listener_def setTimeout_def clearTimeout_def Let_def split: option.splits)
  then show ?thesis using h(1) by (auto simp: armed_at_def)
qed

lemma fold_listener_arms:
  assumes "timers_inv s" and "set L \<subseteq> set (listeners s)"
    and "elems s e = Some el" and "id_p (props el) = i" and "timeout (props el) = Some T"
    and "c \<le> timer_count s"
    and "armed_at e (now s + timer_delay T) c s \<or> e \<in> set L"
  shows "armed_at e (now s + timer_delay T) c (fold (\<lambda>e. listener e i) L s)"
  using assms
proof (induction L arbitrary: s)
  case Nil
  then show ?case by simp
next
  case (Cons x xs)
  let ?s1 = "listener x i s"
  have inv1: "timers_inv ?s1"
    using Cons.prems(1,2) by (simp add: timers_inv_listener)
  have c1: "c \<le> timer_count ?s1"
    using Cons.prems(6) listener_timer_count [of s x i] by simp
  have "armed_at e (now s + timer_delay T) c ?s1 \<or> e \<in> set xs"
  proof (cases "x = e")
    case True
    then show ?thesis
      using listener_arms [OF Cons.prems(3,4,5,6)] by simp
  next
    case False
    then show ?thesis
      using Cons.prems(1,7) listener_keeps_armed [of s x e "now s + timer_delay T" c i] by auto
  qed
  then have "armed_at e (now ?s1 + timer_delay T) c (fold (\<lambda>e. listener e i) xs ?s1)"
    using Cons.prems(2,3,4,5) inv1 c1 by (intro Cons.IH) simp_all
  then show ?case by simp
qed

lemma fire_rearms:
  assumes "wf_state s" and "elems s e = Some el" and "timeout (props el) = Some T" and "js_gt_zero T"
  shows "rearmed e (timer_delay T) s (fire (id_p (props el)) s)"
proof -
  let ?i = "id_p (props el)"
  let ?s0 = "s\<lparr>log := log s @ [ShownEvent ?i]\<rparr>"
  let ?s' = "fire ?i s"
  have inv: "timers_inv s" and einv: "elems_inv s"
    using assms(1) by (simp_all add: wf_state_def)
  have mem: "e \<in> set (listeners s)"
    using einv assms(2,3,4) unfolding elems_inv_def by (auto simp: timeout_armed_def js_truthy_def js_gt_zero_def is_zero_def)
  have "armed_at e (now ?s0 + timer_delay T) (timer_count s) (fold (\<lambda>e. listener e ?i) (listeners s) ?s0)"
    using inv mem assms(2,3) by (intro fold_listener_arms [where el = el]) simp_all
  then obtain h where h: "timer_count s < h" "closeTimer ?s' e = Some h"
      "timers ?s' h = Some (e, now s + timer_delay T)"
    by (auto simp: armed_at_def fire_def)
  have inv': "timers_inv ?s'" using inv by (rule timers_inv_fire)
  have uniq: "\<forall>h' d. timers ?s' h' = Some (e, d) \<longrightarrow> h' = h"
    using inv' h(2) unfolding timers_inv_def by fastforce
  have old: "timers ?s' h' = None" if pend: "timers s h' = Some (e, d)" for h' d
  proof (rule ccontr)
    assume "timers ?s' h' \<noteq> None"
    then obtain e'' d'' where p': "timers ?s' h' = Some (e'', d'')" by auto
    have ct: "closeTimer s e = Some h'" and le: "h' \<le> timer_count s"
      using inv pend unfolding timers_inv_def by blast+
    have "closeTimer ?s' e'' = Some h'"
      using inv' p' unfolding timers_inv_def by blast
    then have "closeTimer s e'' = Some h'"
      using fold_listener_old_handles [of h' ?s0 ?i "listeners s" "(e'', d'')" e''] le
      by (simp add: fire_def)
    then have "e'' = e" using inv ct unfolding timers_inv_def by blast
    then have "h' = h" using uniq p' by blast
    then show False using le h(1) by simp
  qed
  show ?thesis unfolding rearmed_def using h uniq old by blast
qed

subsection \<open>The runs of the examples\<close>

lemma run_example_shown:
  "run Notifications_new [Create example_props, HShow example_handle] = example_shown"
  by (simp add: run_def example_shown_def example_created_def)

lemma run_example_closed:
  "run Notifications_new [Create example_props, HShow example_handle, HClose example_handle]
     = example_closed"
  by (simp add: run_def example_closed_def example_shown_def example_created_def)

lemma elems_example_shown:
  "elems example_shown 0 =
     Some \<lparr>props = example_props,
        element_classes = [''theia-Notification''],
        icon_container_classes = [''icon''],
        icon_classes = [''fa'', ''fa-spinner'', ''fa-pulse'', ''fa-fw'', ''progress''],
        progress_innerText = Some [],
        text_innerText = ''T'',
        button_labels = [''OK'']\<rparr>"
  by (simp add: example_shown_fields example_created_fields)

lemma elems_example_closed:
  "elems example_closed 0 =
     Some \<lparr>props = example_props,
        element_classes = [''theia-Notification''],
        icon_container_classes = [''icon''],
        icon_classes = [''fa'', ''fa-spinner'', ''fa-pulse'', ''fa-fw'', ''progress''],
        progress_innerText = Some [],
        text_innerText = ''T'',
        button_labels = [''OK'']\<rparr>"
  by (simp add: example_closed_fields example_created_fields)

subsection \<open>The timeout is measured from the last shown event\<close>

lemma rearmed_cong:
  "timer_count s0 = timer_count s \<Longrightarrow> now s0 = now s \<Longrightarrow> timers s0 = timers s \<Longrightarrow>
   rearmed e D s0 s' = rearmed e D s s'"
  by (simp add: rearmed_def)

lemma appendChild_fragment_frame [simp]:
  "elems (appendChild_fragment e s) = elems s"
  "next_elem (appendChild_fragment e s) = next_elem s"
  "listeners (appendChild_fragment e s) = listeners s"
  "closeTimer (appendChild_fragment e s) = closeTimer s"
  "timers (appendChild_fragment e s) = timers s"
  "timer_count (appendChild_fragment e s) = timer_count s"
  "now (appendChild_fragment e s) = now s"
  "log (appendChild_fragment e s) = log s"
  by (simp_all add: appendChild_fragment_def)

lemma element_remove_frame [simp]:
  "elems (element_remove e s) = elems s"
  "next_elem (element_remove e s) = next_elem s"
  "listeners (element_remove e s) = listeners s"
  "closeTimer (element_remove e s) = closeTimer s"
  "timers (element_remove e s) = timers s"
  "timer_count (element_remove e s) = timer_count s"
  "now (element_remove e s) = now s"
  "log (element_remove e s) = log s @ [ElementRemove e]"
  "container (element_remove e s) = filter (\<lambda>x. x \<noteq> e) (container s)"
  "fragments (element_remove e s) = fragments s - {e}"
  by (simp_all add: element_remove_def)

lemma show_rearms:
  assumes "wf_state s" and "elems s e = Some el" and "timeout (props el) = Some T" and "js_gt_zero T"
    and "Notifications_show s p = Inr s'" and "id_p p = id_p (props el)"
  shows "rearmed e (timer_delay T) s s'"
proof -
  obtain e1 s1 where c: "createNotificationElement s p = Inr (e1, s1)"
    and s': "s' = fire (id_p p) (appendChild_fragment e1 s1)"
    using assms(5) by (auto simp: Notifications_show_def split: sum.splits)
  note f = createNotificationElement_Inr [OF c]
  let ?s2 = "appendChild_fragment e1 s1"
  have "e < next_elem s"
    using assms(1,2) unfolding wf_state_def elems_inv_def by blast
  then have el2: "elems ?s2 e = Some el"
    using f(1) f(3) [of e] assms(2) by simp
  have wf2: "wf_state ?s2"
    by (rule wf_state_appendChild_fragment [OF wf_state_createNotificationElement [OF assms(1) c]])
  have "rearmed e (timer_delay T) ?s2 s'"
    unfolding s' assms(6) by (rule fire_rearms [OF wf2 el2 assms(3,4)])
  then show ?thesis
    using rearmed_cong [of ?s2 s e "timer_delay T" s'] f by simp
qed

lemma show_h_rearms:
  assumes "wf_state s" and "elems s e = Some el" and "timeout (props el) = Some T" and "js_gt_zero T"
    and "id_p (properties h) = id_p (props el)"
    and "getContainerById s (id_p (properties h)) = None"
  shows "rearmed e (timer_delay T) s (show_h h s)"
proof -
  let ?s2 = "appendChild_fragment (node h) s"
  have s': "show_h h s = fire (id_p (props el)) ?s2"
    using assms(5,6) by (simp add: show_h_def)
  have "rearmed e (timer_delay T) ?s2 (show_h h s)"
    unfolding s'
    by (rule fire_rearms [OF wf_state_appendChild_fragment [OF assms(1)] _ assms(3,4)])
      (simp add: assms(2))
  then show ?thesis
    using rearmed_cong [of ?s2 s e "timer_delay T" "show_h h s"] by simp
qed

lemma click_cancels:
  assumes "wf_state s" and "elems s e = Some el" and "actions (props el) = Some as"
    and "k < length as"
  shows "(\<forall>h d. timers (click e k s) h \<noteq> Some (e, d))
       \<and> log (click e k s) = log s @ [ActionCalled (fn (as ! k)) e, ElementRemove e]
       \<and> e \<notin> set (container (click e k s))"
proof -
  have inv: "\<And>h d. timers s h = Some (e, d) \<Longrightarrow> closeTimer s e = Some h"
    using assms(1) unfolding wf_state_def timers_inv_def by blast
  show ?thesis
  proof (cases "closeTimer s e")
    case None
    then show ?thesis using assms(2,3,4) inv
      by (auto simp: click_def Let_def)
  next
    case (Some h0)
    then show ?thesis using assms(2,3,4) inv
      by (auto simp: click_def Let_def clearTimeout_def)
  qed
qed

lemma timer_fires_effect:
  assumes "elems s e = Some el" and "timers s h = Some (e, d)"
  shows "now s < d \<longrightarrow> timer_fires h s = s"
    and "d \<le> now s \<longrightarrow>
           log (timer_fires h s) = log s @ [OnTimeoutCalled (onTimeout (props el)), ElementRemove e]
         \<and> e \<notin> set (container (timer_fires h s))
         \<and> timers (timer_fires h s) h = None"
  using assms by (auto simp: timer_fires_def Let_def)

lemma listener_other:
  assumes "timers_inv s"
    and "e' \<noteq> e \<or> (\<forall>el. elems s e = Some el \<longrightarrow> id_p (props el) \<noteq> i)"
  shows "closeTimer (listener e' i s) e = closeTimer s e
       \<and> (\<forall>h d. (timers (listener e' i s) h = Some (e, d)) = (timers s h = Some (e, d)))"
proof (cases "e' = e")
  case True
  then show ?thesis using assms(2)
    by (auto simp: listener_def split: option.splits)
next
  case False
  have own: "\<And>h d. timers s h = Some (e, d) \<Longrightarrow> closeTimer s e = Some h"
    and le: "\<And>h. closeTimer s e = Some h \<Longrightarrow> h \<le> timer_count s"
    and inj: "\<And>h. closeTimer s e = Some h \<Longrightarrow> closeTimer s e' \<noteq> Some h"
    using assms(1) False unfolding timers_inv_def by blast+
  have fresh: "timers s (Suc (timer_count s)) \<noteq> Some (e, d)" for d
    using own [of "Suc (timer_count s)" d] le [of "Suc (timer_count s)"] by auto
  have cleared: "timers s h \<noteq> Some (e, d)" if "closeTimer s e' = Some h" for h d
    using own [of h d] inj [of h] that by auto
  show ?thesis
    using False fresh cleared
    by (auto simp: listener_def setTimeout_def clearTimeout_def Let_def split: option.splits)
qed

lemma fold_listener_other:
  assumes "timers_inv s" and "set L \<subseteq> set (listeners s)"
    and "\<forall>el. elems s e = Some el \<longrightarrow> id_p (props el) \<noteq> i"
  shows "closeTimer (fold (\<lambda>e. listener e i) L s) e = closeTimer s e
       \<and> (\<forall>h d. (timers (fold (\<lambda>e. listener e i) L s) h = Some (e, d))
                = (timers s h = Some (e, d)))"
  using assms
proof (induction L arbitrary: s)
  case Nil
  show ?case by simp
next
  case (Cons x xs)
  let ?s1 = "listener x i s"
  have step: "closeTimer ?s1 e = closeTimer s e
       \<and> (\<forall>h d. (timers ?s1 h = Some (e, d)) = (timers s h = Some (e, d)))"
    using listener_other [OF Cons.prems(1), of x e i] Cons.prems(3) by blast
  have inv1: "timers_inv ?s1"
    using Cons.prems(1,2) by (simp add: timers_inv_listener)
  have "closeTimer (fold (\<lambda>e. listener e i) xs ?s1) e = closeTimer ?s1 e
       \<and> (\<forall>h d. (timers (fold (\<lambda>e. listener e i) xs ?s1) h = Some (e, d))
                = (timers ?s1 h = Some (e, d)))"
    using Cons.prems(2,3) by (intro Cons.IH [OF inv1]) simp_all
  then show ?case using step by simp
qed

lemma fire_other_id:
  assumes "wf_state s" and "elems s e = Some el" and "i \<noteq> id_p (props el)"
  shows "closeTimer (fire i s) e = closeTimer s e
       \<and> (\<forall>h d. (timers (fire i s) h = Some (e, d)) = (timers s h = Some (e, d)))"
proof -
  let ?s0 = "s\<lparr>log := log s @ [ShownEvent i]\<rparr>"
  have "timers_inv ?s0" using assms(1) by (simp add: wf_state_def)
  moreover have "\<forall>el. elems ?s0 e = Some el \<longrightarrow> id_p (props el) \<noteq> i"
    using assms(2,3) by auto
  ultimately show ?thesis
    using fold_listener_other [of ?s0 "listeners s" e i] by (simp add: fire_def)
qed

lemma long_shown_fields:
  "elems long_shown 0 =
     Some \<lparr>props = long_props,
        element_classes = [''theia-Notification''],
        icon_container_classes = [''icon''],
        icon_classes = [''fa'', ''fa-warning'', ''fa-fw'', ''warning''],
        progress_innerText = None,
        text_innerText = ''later'',
        button_labels = []\<rparr>"
  "container long_shown = [0]"
  "listeners long_shown = [0]"
  "closeTimer long_shown 0 = Some 1"
  "timers long_shown 1 = Some (0, 0)"
  "now long_shown = 0"
  "log long_shown = [ShownEvent ''n3'']"
  by (simp_all add: long_shown_def Notifications_show_def create_defs long_props_def
      Notifications_new_def appendChild_fragment_def fire_def listener_def setTimeout_def
      timer_delay_2pow31)

text \<open>
  C1, as the code has it. The new timer is not always scheduled for T: shown with a
  timeout of \<open>2^31\<close> milliseconds, the notification gets a timer that is due at the very
  time of the show, since the delay of a timer is a 32-bit integer; fired there, with
  no time passed, it calls onTimeout and removes the node.
\<close>

theorem timeout_delay_counterexample:
  "timeout long_props = Some (Finite 2147483648)
   \<and> now long_shown = 0
   \<and> timers long_shown 1 = Some (0, 0)
   \<and> container (timer_fires 1 long_shown) = []
   \<and> log (timer_fires 1 long_shown)
       = [ShownEvent ''n3'', OnTimeoutCalled 4, ElementRemove 0]"
proof -
  have t: "timers long_shown (Suc 0) = Some (0, 0)"
    using long_shown_fields(5) by simp
  show ?thesis
    by (simp add: timer_fires_def t long_shown_fields(1,2,6,7) Let_def long_props_def)
qed

text \<open>
  C1, amended. In every reachable state, for every built notification whose timeout
  is T > 0: the broadcast of the shown event for its id, whether fired directly, by
  Notifications.show for that id or by an effective show of a handle for that id,
  clears the timer its closure had pending and leaves exactly one pending timer for
  it, due after the delay that the window makes of T, counted from the time of the
  broadcast; that delay is T itself when T is a whole number below \<open>2^31\<close>. A broadcast
  for any other id leaves its remembered handle and its pending timers as they were.
  A click on any of its action buttons leaves none of its timers pending, calls the
  action and removes the node; a pending timer of it does nothing before its deadline,
  and once due it calls onTimeout, then removes the node, and is spent.
\<close>

theorem shown_event_rearms_timeout:
  assumes "s = run Notifications_new evs"
    and "elems s e = Some el"
    and "timeout (props el) = Some T"
    and "js_gt_zero T"
  shows "rearmed e (timer_delay T) s (fire (id_p (props el)) s)
       \<and> (\<forall>n. T = Finite (of_int n) \<and> n < 2147483648 \<longrightarrow> timer_delay T = of_int n)
       \<and> (\<forall>i. i \<noteq> id_p (props el)
             \<longrightarrow> closeTimer (fire i s) e = closeTimer s e
               \<and> (\<forall>h d. (timers (fire i s) h = Some (e, d)) = (timers s h = Some (e, d))))
       \<and> (\<forall>p s'. Notifications_show s p = Inr s' \<and> id_p p = id_p (props el)
             \<longrightarrow> rearmed e (timer_delay T) s s')
       \<and> (\<forall>h. id_p (properties h) = id_p (props el)
               \<and> getContainerById s (id_p (properties h)) = None
             \<longrightarrow> rearmed e (timer_delay T) s (show_h h s))
       \<and> (\<forall>as k. actions (props el) = Some as \<and> k < length as
             \<longrightarrow> (\<forall>h d. timers (click e k s) h \<noteq> Some (e, d))
               \<and> log (click e k s) = log s @ [ActionCalled (fn (as ! k)) e, ElementRemove e]
               \<and> e \<notin> set (container (click e k s)))
       \<and> (\<forall>h d. timers s h = Some (e, d)
             \<longrightarrow> (now s < d \<longrightarrow> timer_fires h s = s)
               \<and> (d \<le> now s \<longrightarrow>
                    log (timer_fires h s)
                      = log s @ [OnTimeoutCalled (onTimeout (props el)), ElementRemove e]
                    \<and> e \<notin> set (container (timer_fires h s))
                    \<and> timers (timer_fires h s) h = None))"
proof -
  have wf: "wf_state s" unfolding assms(1) by (rule wf_state_reachable)
  have a: "rearmed e (timer_delay T) s (fire (id_p (props el)) s)"
    by (rule fire_rearms [OF wf assms(2,3,4)])
  have w: "\<forall>n. T = Finite (of_int n) \<and> n < 2147483648 \<longrightarrow> timer_delay T = of_int n"
    using assms(4) timer_delay_whole by (auto simp: js_gt_zero_def)
  have o: "\<forall>i. i \<noteq> id_p (props el)
             \<longrightarrow> closeTimer (fire i s) e = closeTimer s e
               \<and> (\<forall>h d. (timers (fire i s) h = Some (e, d)) = (timers s h = Some (e, d)))"
    using fire_other_id [OF wf assms(2)] by blast
  have b: "\<forall>p s'. Notifications_show s p = Inr s' \<and> id_p p = id_p (props el)
             \<longrightarrow> rearmed e (timer_delay T) s s'"
    using show_rearms [OF wf assms(2,3,4)] by blast
  have c: "\<forall>h. id_p (properties h) = id_p (props el)
               \<and> getContainerById s (id_p (properties h)) = None
             \<longrightarrow> rearmed e (timer_delay T) s (show_h h s)"
    using show_h_rearms [OF wf assms(2,3,4)] by blast
  have d: "\<forall>as k. actions (props el) = Some as \<and> k < length as
             \<longrightarrow> (\<forall>h d. timers (click e k s) h \<noteq> Some (e, d))
               \<and> log (click e k s) = log s @ [ActionCalled (fn (as ! k)) e, ElementRemove e]
               \<and> e \<notin> set (container (click e k s))"
    using click_cancels [OF wf assms(2)] by blast
  have e: "\<forall>h d. timers s h = Some (e, d)
             \<longrightarrow> (now s < d \<longrightarrow> timer_fires h s = s)
               \<and> (d \<le> now s \<longrightarrow>
                    log (timer_fires h s)
                      = log s @ [OnTimeoutCalled (onTimeout (props el)), ElementRemove e]
                    \<and> e \<notin> set (container (timer_fires h s))
                    \<and> timers (timer_fires h s) h = None)"
    using timer_fires_effect [OF assms(2)] by blast
  show ?thesis using a w o b c d e by blast
qed

theorem shown_event_rearms_timeout_witness:
  "rearmed 0 5 example_shown (fire ''n1'' example_shown)
   \<and> timers (fire ''n1'' example_shown) 1 = None
   \<and> closeTimer (fire ''n2'' example_shown) 0 = Some 1
   \<and> timers (fire ''n2'' example_shown) 1 = Some (0, 5)
   \<and> (\<exists>s'. Notifications_show example_shown example_props = Inr s'
          \<and> rearmed 0 5 example_shown s')
   \<and> (\<forall>h d. timers (click 0 0 example_shown) h \<noteq> Some (0, d))
   \<and> log (click 0 0 example_shown) = [ShownEvent ''n1'', ActionCalled 1 0, ElementRemove 0]
   \<and> timer_fires 1 example_shown = example_shown
   \<and> log (timer_fires 1 (advance 5 example_shown))
       = [ShownEvent ''n1'', OnTimeoutCalled 2, ElementRemove 0]"
proof -
  note t = shown_event_rearms_timeout [OF run_example_shown [symmetric] elems_example_shown,
      of "Finite 5", simplified]
  have id: "id_p example_props = ''n1''" "actions example_props = Some [\<lparr>label = ''OK'', fn = 1\<rparr>]"
    "timeout example_props = Some (Finite 5)" "onTimeout example_props = 2"
    "js_gt_zero (Finite 5)"
    by (simp_all add: example_props_def js_gt_zero_def)
  have r: "rearmed 0 5 example_shown (fire ''n1'' example_shown)"
    using t id by (simp add: timer_delay_5)
  have pend: "timers example_shown 1 = Some (0, 5)" "closeTimer example_shown 0 = Some 1"
    by (simp_all add: example_shown_fields)
  have old: "timers (fire ''n1'' example_shown) 1 = None"
    using r pend unfolding rearmed_def by blast
  have other: "closeTimer (fire ''n2'' example_shown) 0 = Some 1
      \<and> timers (fire ''n2'' example_shown) 1 = Some (0, 5)"
    using t id pend by simp
  have "\<exists>s'. Notifications_show example_shown example_props = Inr s'"
    by (simp add: Notifications_show_def create_defs example_props_def)
  then have again: "\<exists>s'. Notifications_show example_shown example_props = Inr s'
      \<and> rearmed 0 5 example_shown s'"
    using t id by (auto simp: timer_delay_5)
  have cl: "(\<forall>h d. timers (click 0 0 example_shown) h \<noteq> Some (0, d))
      \<and> log (click 0 0 example_shown) = [ShownEvent ''n1'', ActionCalled 1 0, ElementRemove 0]"
    using t id by (simp add: example_shown_fields)
  have early: "timer_fires 1 example_shown = example_shown"
    using t id pend by (simp add: example_shown_fields)
  have late: "log (timer_fires 1 (advance 5 example_shown))
       = [ShownEvent ''n1'', OnTimeoutCalled 2, ElementRemove 0]"
    by (simp add: timer_fires_def advance_def example_shown_fields example_created_fields
        example_props_def Let_def)
  show ?thesis using r old other again cl early late by blast
qed

subsection \<open>Notifications without a timeout\<close>

lemma no_timer_unless_armed:
  assumes "wf_state s" and "elems s e = Some el" and "\<not> timeout_armed (props el)"
  shows "e \<notin> set (listeners s)" and "closeTimer s e = None" and "timers s h \<noteq> Some (e, d)"
proof -
  show l: "e \<notin> set (listeners s)"
    using assms unfolding wf_state_def elems_inv_def by blast
  show c: "closeTimer s e = None"
    using assms(1) l unfolding wf_state_def timers_inv_def by (cases "closeTimer s e") auto
  show "timers s h \<noteq> Some (e, d)"
    using assms(1) c unfolding wf_state_def timers_inv_def by fastforce
qed

lemma container_fire_show [simp]:
  "container (appendChild_fragment e s) = (if e \<in> fragments s then container s @ [e] else container s)"
  by (simp add: appendChild_fragment_def)

lemma props_step:
  assumes "wf_state s" and "elems s e = Some el"
  shows "\<exists>el'. elems (step s ev) e = Some el' \<and> props el' = props el"
proof (cases ev)
  case (Show p)
  show ?thesis
  proof (cases "createNotificationElement s p")
    case (Inl err)
    then show ?thesis using Show assms(2) by (simp add: Notifications_show_def)
  next
    case (Inr r)
    obtain e1 s1 where r: "r = (e1, s1)" by (cases r)
    note f = createNotificationElement_Inr [OF Inr [unfolded r]]
    have "e < next_elem s"
      using assms unfolding wf_state_def elems_inv_def by blast
    then show ?thesis using Show Inr r f(1) f(3) [of e] assms(2)
      by (simp add: Notifications_show_def)
  qed
next
  case (Create p)
  show ?thesis
  proof (cases "createNotificationElement s p")
    case (Inl err)
    then show ?thesis using Create assms(2) by (simp add: Notifications_create_def)
  next
    case (Inr r)
    obtain e1 s1 where r: "r = (e1, s1)" by (cases r)
    note f = createNotificationElement_Inr [OF Inr [unfolded r]]
    have "e < next_elem s"
      using assms unfolding wf_state_def elems_inv_def by blast
    then show ?thesis using Create Inr r f(1) f(3) [of e] assms(2)
      by (simp add: Notifications_create_def)
  qed
next
  case (HShow h)
  then show ?thesis using assms(2) by (simp add: show_h_def split: option.splits)
next
  case (HClose h)
  then show ?thesis using assms(2) by (simp add: close_def split: option.splits)
next
  case (HUpdate h item)
  then show ?thesis using assms(2)
    by (auto simp: update_def Let_def elems_set_text elems_set_progress split: option.splits)
next
  case (Click e' k)
  then show ?thesis using assms(2)
    by (simp add: click_def Let_def clearTimeout_def split: option.splits)
next
  case (TimerFires h)
  then show ?thesis using assms(2)
    by (simp add: timer_fires_def Let_def split: option.splits)
next
  case (Advance d)
  then show ?thesis using assms(2) by (simp add: advance_def)
qed

lemma props_run:
  assumes "wf_state s" and "elems s e = Some el"
  shows "\<exists>el'. elems (run s evs) e = Some el' \<and> props el' = props el"
  using assms
proof (induction evs arbitrary: s el)
  case Nil
  then show ?case by (simp add: run_def)
next
  case (Cons ev evs)
  obtain el1 where el1: "elems (step s ev) e = Some el1" "props el1 = props el"
    using props_step [OF Cons.prems] by blast
  have "\<exists>el'. elems (run (step s ev) evs) e = Some el' \<and> props el' = props el1"
    by (rule Cons.IH [OF wf_state_step [OF Cons.prems(1)] el1(1)])
  then show ?case using el1(2) by (simp add: run_def)
qed

lemma stays_step:
  assumes "wf_state s" and "elems s e = Some el" and "\<not> timeout_armed (props el)"
    and "e \<in> set (container s)" and "\<not> dismisses e ev"
  shows "e \<in> set (container (step s ev))"
proof (cases ev)
  case (Show p)
  then show ?thesis using assms(4)
    by (auto simp: Notifications_show_def split: sum.splits
        dest: createNotificationElement_Inr(5))
next
  case (Create p)
  then show ?thesis using assms(4)
    by (auto simp: Notifications_create_def split: sum.splits
        dest: createNotificationElement_Inr(5))
next
  case (HShow h)
  then show ?thesis using assms(4) by (simp add: show_h_def split: option.splits)
next
  case (HClose h)
  then show ?thesis using assms(5) by simp
next
  case (HUpdate h item)
  then show ?thesis using assms(4) by simp
next
  case (Click e' k)
  then show ?thesis using assms(4,5)
    by (simp add: click_def Let_def clearTimeout_def split: option.splits)
next
  case (TimerFires h)
  then show ?thesis
    using assms(4) no_timer_unless_armed(3) [OF assms(1,2,3), of h]
    by (auto simp: timer_fires_def Let_def split: option.splits)
next
  case (Advance d)
  then show ?thesis using assms(4) by (simp add: advance_def)
qed

lemma stays_run:
  assumes "wf_state s" and "elems s e = Some el" and "\<not> timeout_armed (props el)"
    and "e \<in> set (container s)" and "list_all (\<lambda>ev. \<not> dismisses e ev) evs"
  shows "e \<in> set (container (run s evs))"
  using assms
proof (induction evs arbitrary: s el)
  case Nil
  then show ?case by (simp add: run_def)
next
  case (Cons ev evs)
  obtain el1 where el1: "elems (step s ev) e = Some el1" "props el1 = props el"
    using props_step [OF Cons.prems(1,2)] by blast
  have "e \<in> set (container (step s ev))"
    using stays_step [OF Cons.prems(1,2,3,4)] Cons.prems(5) by simp
  then have "e \<in> set (container (run (step s ev) evs))"
    using Cons.prems(3,5) el1
    by (intro Cons.IH [OF wf_state_step [OF Cons.prems(1)] el1(1)]) simp_all
  then show ?case by (simp add: run_def)
qed

text \<open>
  C2. In every reachable state, a built notification whose timeout is 0 (of either
  sign) or undefined has no subscription to the shown event, no remembered timer handle and no pending
  timer, and this stays so after any further events. If its node is in the container,
  it is still there after any further events among which there is no close on a handle
  and no click on one of its own buttons.
\<close>

theorem no_timeout_no_timer:
  assumes "s = run Notifications_new evs"
    and "elems s e = Some el"
    and "timeout (props el) = None \<or> timeout (props el) = Some (Finite 0)
         \<or> timeout (props el) = Some NegZero"
  shows "e \<notin> set (listeners s)
       \<and> closeTimer s e = None
       \<and> (\<forall>h d. timers s h \<noteq> Some (e, d))
       \<and> (\<forall>evs'. e \<notin> set (listeners (run s evs'))
             \<and> (\<forall>h d. timers (run s evs') h \<noteq> Some (e, d)))
       \<and> (\<forall>evs'. e \<in> set (container s) \<and> list_all (\<lambda>ev. \<not> dismisses e ev) evs'
             \<longrightarrow> e \<in> set (container (run s evs')))"
proof -
  have wf: "wf_state s" unfolding assms(1) by (rule wf_state_reachable)
  have na: "\<not> timeout_armed (props el)"
    using assms(3) by (auto simp: timeout_armed_def js_truthy_def js_gt_zero_def is_zero_def)
  note n = no_timer_unless_armed [OF wf assms(2) na]
  have later: "e \<notin> set (listeners (run s evs')) \<and> (\<forall>h d. timers (run s evs') h \<noteq> Some (e, d))"
    for evs'
  proof -
    obtain el' where el': "elems (run s evs') e = Some el'" "props el' = props el"
      using props_run [OF wf assms(2)] by blast
    have na': "\<not> timeout_armed (props el')" using na el'(2) by simp
    show ?thesis
      using no_timer_unless_armed(1,3) [OF wf_state_run [OF wf] el'(1) na'] by blast
  qed
  have stay: "\<forall>evs'. e \<in> set (container s) \<and> list_all (\<lambda>ev. \<not> dismisses e ev) evs'
             \<longrightarrow> e \<in> set (container (run s evs'))"
    using stays_run [OF wf assms(2) na] by blast
  show ?thesis using n later stay by blast
qed

lemma plain_shown_fields:
  "elems plain_shown =
     (\<lambda>_. None)(0 \<mapsto> \<lparr>props = plain_props,
        element_classes = [''theia-Notification''],
        icon_container_classes = [''icon''],
        icon_classes = [''fa'', ''fa-info-circle'', ''fa-fw'', ''info''],
        progress_innerText = None,
        text_innerText = ''hello'',
        button_labels = []\<rparr>)"
  "next_elem plain_shown = 1"
  "container plain_shown = [0]"
  "fragments plain_shown = {}"
  "listeners plain_shown = []"
  "closeTimer plain_shown = (\<lambda>_. None)"
  "timers plain_shown = (\<lambda>_. None)"
  "timer_count plain_shown = 0"
  "now plain_shown = 0"
  "log plain_shown = [ShownEvent ''n2'']"
  by (simp_all add: plain_shown_def Notifications_show_def create_defs plain_props_def
      Notifications_new_def appendChild_fragment_def fire_def)

lemma run_plain_shown: "run Notifications_new [Show plain_props] = plain_shown"
  by (simp add: run_def plain_shown_def)

lemma elems_plain_shown:
  "elems plain_shown 0 =
     Some \<lparr>props = plain_props,
        element_classes = [''theia-Notification''],
        icon_container_classes = [''icon''],
        icon_classes = [''fa'', ''fa-info-circle'', ''fa-fw'', ''info''],
        progress_innerText = None,
        text_innerText = ''hello'',
        button_labels = []\<rparr>"
  by (simp add: plain_shown_fields)

theorem no_timeout_no_timer_witness:
  "0 \<notin> set (listeners plain_shown)
   \<and> closeTimer plain_shown 0 = None
   \<and> 0 \<notin> set (listeners (run plain_shown [Show example_props, Advance 9, TimerFires 1]))
   \<and> 0 \<in> set (container (run plain_shown [Show example_props, Advance 9, TimerFires 1]))"
proof -
  have t: "timeout (props \<lparr>props = plain_props,
        element_classes = [''theia-Notification''],
        icon_container_classes = [''icon''],
        icon_classes = [''fa'', ''fa-info-circle'', ''fa-fw'', ''info''],
        progress_innerText = None,
        text_innerText = ''hello'',
        button_labels = []\<rparr>) = None"
    by (simp add: plain_props_def)
  note th = no_timeout_no_timer [OF run_plain_shown [symmetric] elems_plain_shown
      disjI1 [OF t]]
  have c: "0 \<in> set (container plain_shown)" by (simp add: plain_shown_fields)
  have d: "list_all (\<lambda>ev. \<not> dismisses 0 ev) [Show example_props, Advance 9, TimerFires 1]"
    by simp
  show ?thesis using th c d by blast
qed

subsection \<open>The subscription outlives the node\<close>

lemma listeners_step: "set (listeners s) \<subseteq> set (listeners (step s ev))"
proof (cases ev)
  case (Show p)
  then show ?thesis
    by (auto simp: Notifications_show_def split: sum.splits if_splits
        dest!: createNotificationElement_Inr(7))
next
  case (Create p)
  then show ?thesis
    by (auto simp: Notifications_create_def split: sum.splits if_splits
        dest!: createNotificationElement_Inr(7))
next
  case (HShow h)
  then show ?thesis by (simp add: show_h_def split: option.splits)
next
  case (HClose h)
  then show ?thesis by (simp add: close_def split: option.splits)
next
  case (HUpdate h item)
  then show ?thesis
    by (simp add: update_def Let_def set_text_def set_progress_def split: option.splits)
next
  case (Click e' k)
  then show ?thesis by (simp add: click_def Let_def clearTimeout_def split: option.splits)
next
  case (TimerFires h)
  then show ?thesis by (simp add: timer_fires_def Let_def split: option.splits)
next
  case (Advance d)
  then show ?thesis by (simp add: advance_def)
qed

lemma listeners_run: "set (listeners s) \<subseteq> set (listeners (run s evs))"
proof (induction evs arbitrary: s)
  case Nil
  show ?case by (simp add: run_def)
next
  case (Cons ev evs)
  have "set (listeners s) \<subseteq> set (listeners (step s ev))" by (rule listeners_step)
  also have "\<dots> \<subseteq> set (listeners (run (step s ev) evs))" by (rule Cons.IH)
  finally show ?case by (simp add: run_def)
qed

text \<open>
  C10. In every reachable state, a built notification whose timeout is T > 0 is
  subscribed to the shown event and stays subscribed after any further events. Also
  when its node is no longer in the container, a broadcast of the shown event for its
  id re-arms its timer with the delay the window makes of T; once that delay has
  passed, the timer calls onTimeout and runs the removal of the element again.
\<close>

theorem subscription_outlives_node:
  assumes "s = run Notifications_new evs"
    and "elems s e = Some el"
    and "timeout (props el) = Some T"
    and "js_gt_zero T"
  shows "(\<forall>evs'. e \<in> set (listeners (run s evs')))
       \<and> (e \<notin> set (container s) \<longrightarrow>
            rearmed e (timer_delay T) s (fire (id_p (props el)) s)
            \<and> (\<forall>h. closeTimer (fire (id_p (props el)) s) e = Some h \<longrightarrow>
                  timers (fire (id_p (props el)) s) h = Some (e, now s + timer_delay T)
                  \<and> log (timer_fires h (advance (timer_delay T) (fire (id_p (props el)) s)))
                      = log s @ [ShownEvent (id_p (props el)),
                                 OnTimeoutCalled (onTimeout (props el)), ElementRemove e]))"
proof -
  let ?s' = "fire (id_p (props el)) s"
  have wf: "wf_state s" unfolding assms(1) by (rule wf_state_reachable)
  have "timeout_armed (props el)"
    using assms(3,4)
    by (auto simp: timeout_armed_def js_truthy_def js_gt_zero_def is_zero_def
        split: double.splits)
  then have mem: "e \<in> set (listeners s)"
    using wf assms(2) unfolding wf_state_def elems_inv_def by blast
  have sub: "\<forall>evs'. e \<in> set (listeners (run s evs'))"
    using mem listeners_run by blast
  have r: "rearmed e (timer_delay T) s ?s'"
    by (rule fire_rearms [OF wf assms(2,3,4)])
  have fires: "timers ?s' h = Some (e, now s + timer_delay T)
      \<and> log (timer_fires h (advance (timer_delay T) ?s'))
          = log s @ [ShownEvent (id_p (props el)),
                     OnTimeoutCalled (onTimeout (props el)), ElementRemove e]"
    if h: "closeTimer ?s' e = Some h" for h
  proof -
    have p: "timers ?s' h = Some (e, now s + timer_delay T)"
      using r h unfolding rearmed_def by auto
    have adv: "advance (timer_delay T) ?s' = ?s'\<lparr>now := now s + timer_delay T\<rparr>"
      using timer_delay_nonneg [of T] by (simp add: advance_def)
    show ?thesis using p assms(2)
      by (simp add: adv timer_fires_def Let_def)
  qed
  show ?thesis using sub r fires by blast
qed

lemma example_reshown_fire: "fire ''n1'' example_closed = example_reshown"
  by (simp add: example_reshown_def show_h_def getContainerById_def example_closed_fields
      example_handle_def example_props_def appendChild_fragment_def)

theorem subscription_outlives_node_witness:
  "0 \<notin> set (container example_closed)
   \<and> 0 \<in> set (listeners (run example_closed [HShow example_handle, Advance 5, TimerFires 2]))
   \<and> rearmed 0 5 example_closed example_reshown
   \<and> timers example_reshown 2 = Some (0, 5)
   \<and> log (timer_fires 2 (advance 5 example_reshown))
       = [ShownEvent ''n1'', ElementRemove 0, ShownEvent ''n1'', OnTimeoutCalled 2,
          ElementRemove 0]"
proof -
  note th = subscription_outlives_node [OF run_example_closed [symmetric] elems_example_closed,
      of "Finite 5", simplified]
  have id: "id_p example_props = ''n1''" "timeout example_props = Some (Finite 5)"
    "onTimeout example_props = 2" "js_gt_zero (Finite 5)"
    by (simp_all add: example_props_def js_gt_zero_def)
  have c: "0 \<notin> set (container example_closed)"
    by (simp add: example_closed_fields)
  have ct: "closeTimer example_reshown 0 = Some 2"
    by (simp add: example_reshown_fields)
  show ?thesis
    using th id c ct by (simp add: example_reshown_fire example_closed_fields timer_delay_5)
qed

subsection \<open>Creation leaves the document alone\<close>

lemma next_elem_set_text [simp]: "next_elem (set_text e t s) = next_elem s"
  by (simp add: set_text_def split: option.splits)

lemma next_elem_set_progress [simp]: "next_elem (set_progress e t s) = next_elem s"
  by (simp add: set_progress_def split: option.splits)

lemma next_elem_update [simp]: "next_elem (update h item s) = next_elem s"
  by (simp add: update_def Let_def split: option.splits)

lemma not_shown_step:
  assumes "e < next_elem s" and "e \<notin> set (container s)" and "\<not> shows_handle e ev"
  shows "e \<notin> set (container (step s ev)) \<and> e < next_elem (step s ev)"
proof (cases ev)
  case (Show p)
  show ?thesis
  proof (cases "createNotificationElement s p")
    case (Inl err)
    then show ?thesis using Show assms by (simp add: Notifications_show_def)
  next
    case (Inr r)
    obtain e1 s1 where r: "r = (e1, s1)" by (cases r)
    note f = createNotificationElement_Inr [OF Inr [unfolded r]]
    show ?thesis using Show Inr r assms f(1,4,5,6)
      by (simp add: Notifications_show_def)
  qed
next
  case (Create p)
  show ?thesis
  proof (cases "createNotificationElement s p")
    case (Inl err)
    then show ?thesis using Create assms by (simp add: Notifications_create_def)
  next
    case (Inr r)
    obtain e1 s1 where r: "r = (e1, s1)" by (cases r)
    note f = createNotificationElement_Inr [OF Inr [unfolded r]]
    show ?thesis using Create Inr r assms f(1,4,5)
      by (simp add: Notifications_create_def)
  qed
next
  case (HShow h)
  then show ?thesis using assms by (simp add: show_h_def split: option.splits)
next
  case (HClose h)
  then show ?thesis using assms by (simp add: close_def split: option.splits)
next
  case (HUpdate h item)
  then show ?thesis using assms by simp
next
  case (Click e' k)
  then show ?thesis using assms
    by (simp add: click_def Let_def clearTimeout_def split: option.splits)
next
  case (TimerFires h)
  then show ?thesis using assms
    by (simp add: timer_fires_def Let_def split: option.splits)
next
  case (Advance d)
  then show ?thesis using assms by (simp add: advance_def)
qed

lemma not_shown_run:
  assumes "e < next_elem s" and "e \<notin> set (container s)"
    and "list_all (\<lambda>ev. \<not> shows_handle e ev) evs"
  shows "e \<notin> set (container (run s evs))"
  using assms
proof (induction evs arbitrary: s)
  case Nil
  then show ?case by (simp add: run_def)
next
  case (Cons ev evs)
  have "e \<notin> set (container (step s ev)) \<and> e < next_elem (step s ev)"
    using not_shown_step [OF Cons.prems(1,2)] Cons.prems(3) by simp
  then have "e \<notin> set (container (run (step s ev) evs))"
    using Cons.prems(3) by (intro Cons.IH) simp_all
  then show ?case by (simp add: run_def)
qed

lemma container_bounded:
  assumes "wf_state s" and "x \<in> set (container s)"
  shows "x < next_elem s"
proof -
  have "elems s x \<noteq> None"
    using assms unfolding wf_state_def elems_inv_def by blast
  then show ?thesis
    using assms(1) unfolding wf_state_def elems_inv_def by blast
qed

text \<open>
  C8. In every reachable state, a call of Notifications.create that returns leaves
  the children of the container, the log of fired events and called callbacks, the
  timers and every element built before as they were. The handle it returns carries
  the given properties and is bound to a fresh fragment, which holds the new element
  with the properties' text; that element is not in the container, and does not enter
  it through any further events among which there is no show on that handle.
\<close>

theorem create_builds_detached:
  assumes "s = run Notifications_new evs"
    and "Notifications_create s p = Inr (h, s')"
  shows "container s' = container s
       \<and> log s' = log s
       \<and> timers s' = timers s
       \<and> closeTimer s' = closeTimer s
       \<and> now s' = now s
       \<and> (\<forall>x. x \<noteq> node h \<longrightarrow> elems s' x = elems s x)
       \<and> elems s (node h) = None
       \<and> properties h = p
       \<and> node h \<in> fragments s'
       \<and> node h \<notin> set (container s')
       \<and> (\<exists>el. elems s' (node h) = Some el \<and> props el = p \<and> text_innerText el = text_p p)
       \<and> (\<forall>evs'. list_all (\<lambda>ev. \<not> shows_handle (node h) ev) evs'
             \<longrightarrow> node h \<notin> set (container (run s' evs')))"
proof -
  have wf: "wf_state s" unfolding assms(1) by (rule wf_state_reachable)
  have c: "createNotificationElement s p = Inr (node h, s')" and ph: "properties h = p"
    using assms(2) by (auto simp: Notifications_create_def split: sum.splits)
  note f = createNotificationElement_Inr [OF c]
  have fresh: "node h \<notin> set (container s)"
    using container_bounded [OF wf, of "node h"] f(1) by auto
  have none: "elems s (node h) = None"
    using wf f(1) unfolding wf_state_def elems_inv_def by (cases "elems s (node h)") auto
  have later: "\<forall>evs'. list_all (\<lambda>ev. \<not> shows_handle (node h) ev) evs'
             \<longrightarrow> node h \<notin> set (container (run s' evs'))"
    using not_shown_run [of "node h" s'] f(1,4,5) fresh by simp
  have el: "\<exists>el. elems s' (node h) = Some el \<and> props el = p \<and> text_innerText el = text_p p"
    using f(2) by blast
  show ?thesis
    using f(3,5,6,8,9,11,12) fresh none ph later el by simp
qed

theorem create_builds_detached_witness:
  "container example_created = []
   \<and> log example_created = []
   \<and> 0 \<in> fragments example_created
   \<and> 0 \<notin> set (container (run example_created
        [HUpdate example_handle \<lparr>message = Some ''m'', work = None\<rparr>, Advance 7,
         HClose example_handle]))"
proof -
  have r: "Notifications_new = run Notifications_new []" by (simp add: run_def)
  note th = create_builds_detached [OF r create_example]
  have d: "list_all (\<lambda>ev. \<not> shows_handle (node example_handle) ev)
      [HUpdate example_handle \<lparr>message = Some ''m'', work = None\<rparr>, Advance 7,
       HClose example_handle]"
    by simp
  have "node example_handle = 0" by (simp add: example_handle_def)
  then show ?thesis
    using th d by (simp add: Notifications_new_def)
qed

subsection \<open>The progress element\<close>

lemma update_without_progress:
  assumes "getProgressById s (id_p (properties h)) = None"
  shows "map_option progress_innerText (elems (update h item s) x)
           = map_option progress_innerText (elems s x)"
proof -
  have "map_option progress_innerText (elems (set_text e t s) x)
          = map_option progress_innerText (elems s x)" for e t
    by (cases "elems s e") (auto simp: elems_set_text)
  then show ?thesis
    using assms by (simp add: update_def Let_def split: option.splits)
qed

text \<open>
  C9. In every reachable state, a built element has a progress sub-element exactly
  when the icon of its properties is the string progress. When no node in the
  container that carries the handle's id was built with the icon progress, an update
  leaves the progress text of every element as it was, whatever work it carries, and
  still writes the main text into the text element it finds.
\<close>

theorem progress_element_only_for_progress_icon:
  assumes "s = run Notifications_new evs"
  shows "(\<forall>e el. elems s e = Some el \<longrightarrow>
            (progress_innerText el \<noteq> None) = (icon (props el) = ''progress''))
       \<and> ((\<forall>e el. e \<in> set (container s) \<and> elems s e = Some el
                  \<and> id_p (props el) = id_p (properties h)
               \<longrightarrow> icon (props el) \<noteq> ''progress'')
            \<longrightarrow> (\<forall>x. map_option progress_innerText (elems (update h item s) x)
                        = map_option progress_innerText (elems s x))
              \<and> (\<forall>te. getTextById s (id_p (properties h)) = Some te
                    \<longrightarrow> map_option text_innerText (elems (update h item s) te)
                          = Some (text_p (properties h) @ message_suffix item)))"
proof -
  have wf: "wf_state s" unfolding assms(1) by (rule wf_state_reachable)
  have icon: "\<forall>e el. elems s e = Some el \<longrightarrow>
            (progress_innerText el \<noteq> None) = (icon (props el) = ''progress'')"
    using wf unfolding wf_state_def elems_inv_def PROGRESS_def by blast
  have rest: "(\<forall>x. map_option progress_innerText (elems (update h item s) x)
                        = map_option progress_innerText (elems s x))
              \<and> (\<forall>te. getTextById s (id_p (properties h)) = Some te
                    \<longrightarrow> map_option text_innerText (elems (update h item s) te)
                          = Some (text_p (properties h) @ message_suffix item))"
    if no: "\<forall>e el. e \<in> set (container s) \<and> elems s e = Some el
                  \<and> id_p (props el) = id_p (properties h)
               \<longrightarrow> icon (props el) \<noteq> ''progress''"
  proof -
    have "\<not> (has_id s (id_p (properties h)) e \<and> has_progress s e)"
      if "e \<in> set (container s)" for e
      using that no icon
      by (cases "elems s e") (auto simp: has_id_def has_progress_def)
    then have "getProgressById s (id_p (properties h)) = None"
      by (simp add: getProgressById_def find_None_iff)
    then show ?thesis
      using update_without_progress update_text by blast
  qed
  show ?thesis using icon rest by blast
qed

theorem progress_element_only_for_progress_icon_witness:
  "map_option progress_innerText (elems plain_shown 0) = Some None
   \<and> map_option progress_innerText
       (elems (update plain_handle
          \<lparr>message = Some ''m'', work = Some \<lparr>done_w = Finite 1, total_w = Finite 4\<rparr>\<rparr> plain_shown) 0)
       = Some None
   \<and> map_option text_innerText
       (elems (update plain_handle
          \<lparr>message = Some ''m'', work = Some \<lparr>done_w = Finite 1, total_w = Finite 4\<rparr>\<rparr> plain_shown) 0)
       = Some ''hello: m''"
proof -
  note th = progress_element_only_for_progress_icon [OF run_plain_shown [symmetric],
      of plain_handle "\<lparr>message = Some ''m'', work = Some \<lparr>done_w = Finite 1, total_w = Finite 4\<rparr>\<rparr>"]
  have no: "\<forall>e el. e \<in> set (container plain_shown) \<and> elems plain_shown e = Some el
                  \<and> id_p (props el) = id_p (properties plain_handle)
               \<longrightarrow> icon (props el) \<noteq> ''progress''"
    by (simp add: plain_shown_fields plain_props_def)
  have t: "getTextById plain_shown (id_p (properties plain_handle)) = Some 0"
    by (simp add: getTextById_def has_id_def plain_shown_fields plain_handle_def)
  have p: "map_option progress_innerText (elems plain_shown 0) = Some None"
    by (simp add: plain_shown_fields)
  show ?thesis
    using th no t p
    by (simp add: message_suffix_def plain_handle_def plain_props_def)
qed

subsection \<open>Updates and closes that find no node\<close>

lemma update_absent: "getTextById s (id_p (properties h)) = None \<Longrightarrow> update h item s = s"
  by (simp add: update_def)

text \<open>
  C6, as the code has it. An update on the handle just created, before its first
  show, does not change the text: it returns the state it was given, and the text of
  the detached node is still the creation-time text.
\<close>

theorem update_before_show_counterexample:
  "update example_handle \<lparr>message = Some ''m'', work = None\<rparr> example_created = example_created
   \<and> map_option text_innerText
       (elems (update example_handle \<lparr>message = Some ''m'', work = None\<rparr> example_created) 0)
       = Some ''T''
   \<and> 0 \<in> fragments example_created"
proof -
  have "getTextById example_created (id_p (properties example_handle)) = None"
    by (simp add: getTextById_def example_created_fields)
  then have "update example_handle \<lparr>message = Some ''m'', work = None\<rparr> example_created
      = example_created"
    by (rule update_absent)
  then show ?thesis by (simp add: example_created_fields)
qed

text \<open>
  C6, amended. In every reachable state in which no node in the document carries the
  id, an update on the handle that Notifications.create returns, before its first show,
  is a no-op: it returns the state unchanged, and the node, still in its fragment,
  keeps the text of the properties.
\<close>

theorem update_before_show_is_noop:
  assumes "s = run Notifications_new evs"
    and "getContainerById s (id_p p) = None"
    and "Notifications_create s p = Inr (h, s')"
  shows "update h item s' = s'
       \<and> node h \<in> fragments s'
       \<and> map_option text_innerText (elems (update h item s') (node h)) = Some (text_p p)"
proof -
  have wf: "wf_state s" unfolding assms(1) by (rule wf_state_reachable)
  have c: "createNotificationElement s p = Inr (node h, s')" and ph: "properties h = p"
    using assms(3) by (auto simp: Notifications_create_def split: sum.splits)
  note f = createNotificationElement_Inr [OF c]
  have "\<not> has_id s' (id_p p) x" if x: "x \<in> set (container s)" for x
  proof -
    have "x \<noteq> node h" using container_bounded [OF wf x] f(1) by simp
    then have "has_id s' (id_p p) x = has_id s (id_p p) x"
      using f(3) [of x] by (simp add: has_id_def)
    then show ?thesis
      using assms(2) x by (simp add: getContainerById_def find_None_iff)
  qed
  then have "getTextById s' (id_p (properties h)) = None"
    by (simp add: getTextById_def find_None_iff f(5) ph)
  then have u: "update h item s' = s'" by (rule update_absent)
  show ?thesis using u f(2,6) by auto
qed

theorem update_before_show_is_noop_witness:
  "update example_handle \<lparr>message = None, work = Some \<lparr>done_w = Finite 1, total_w = Finite 4\<rparr>\<rparr>
     example_created = example_created
   \<and> node example_handle \<in> fragments example_created"
proof -
  have r: "Notifications_new = run Notifications_new []" by (simp add: run_def)
  have g: "getContainerById Notifications_new (id_p example_props) = None"
    by (simp add: getContainerById_def Notifications_new_def)
  show ?thesis
    using update_before_show_is_noop [OF r g create_example] by simp
qed

text \<open>
  C7, as the code has it. An operation of the module can throw: Notifications.show
  throws when the icon is the empty string, and Notifications.create when it holds a
  space, since the class list refuses an empty token and a token with whitespace.
\<close>

theorem show_throws_counterexample:
  "Notifications_show Notifications_new (plain_props\<lparr>icon := []\<rparr>) = Inl SyntaxError
   \<and> Notifications_create Notifications_new (plain_props\<lparr>icon := ''fa fa-check''\<rparr>)
       = Inl InvalidCharacterError"
  by (simp add: Notifications_show_def create_defs plain_props_def)

lemma createNotificationElement_throws:
  "(icon p = [] \<longrightarrow> createNotificationElement s p = Inl SyntaxError)
   \<and> (icon p \<noteq> [] \<and> list_ex ascii_whitespace (icon p)
        \<longrightarrow> createNotificationElement s p = Inl InvalidCharacterError)
   \<and> (icon p \<noteq> [] \<and> \<not> list_ex ascii_whitespace (icon p)
        \<longrightarrow> (\<exists>r. createNotificationElement s p = Inr r))"
  by (simp add: createNotificationElement_def classList_add_def toIconClass_def PROGRESS_def
      NOTIFICATION_def ICON_def ascii_whitespace_def Let_def)

text \<open>
  C7, amended. An update addressed to an id whose text element is not in the document,
  and a close addressed to an id whose node is not in the document, return the state
  unchanged; update, close and the show of a handle have no failing outcome at all.
  Notifications.show and Notifications.create throw exactly when the icon is not a
  valid class token: a SyntaxError for the empty string, an InvalidCharacterError for
  a string with ASCII whitespace; with any other icon they return.
\<close>

theorem absent_node_is_silent_noop:
  "(getTextById s (id_p (properties h)) = None \<longrightarrow> update h item s = s)
   \<and> (getContainerById s (id_p (properties h)) = None \<longrightarrow> close h s = s)
   \<and> (icon p = [] \<longrightarrow>
        Notifications_show s p = Inl SyntaxError
        \<and> Notifications_create s p = Inl SyntaxError)
   \<and> (icon p \<noteq> [] \<and> list_ex ascii_whitespace (icon p) \<longrightarrow>
        Notifications_show s p = Inl InvalidCharacterError
        \<and> Notifications_create s p = Inl InvalidCharacterError)
   \<and> (icon p \<noteq> [] \<and> \<not> list_ex ascii_whitespace (icon p) \<longrightarrow>
        (\<exists>s'. Notifications_show s p = Inr s')
        \<and> (\<exists>r. Notifications_create s p = Inr r))"
proof -
  have a: "getTextById s (id_p (properties h)) = None \<longrightarrow> update h item s = s"
    by (simp add: update_absent)
  have b: "getContainerById s (id_p (properties h)) = None \<longrightarrow> close h s = s"
    by (simp add: close_def)
  note c = createNotificationElement_throws [of p s]
  have d: "icon p = [] \<longrightarrow>
        Notifications_show s p = Inl SyntaxError
        \<and> Notifications_create s p = Inl SyntaxError"
    using c by (simp add: Notifications_show_def Notifications_create_def)
  have e: "icon p \<noteq> [] \<and> list_ex ascii_whitespace (icon p) \<longrightarrow>
        Notifications_show s p = Inl InvalidCharacterError
        \<and> Notifications_create s p = Inl InvalidCharacterError"
    using c by (simp add: Notifications_show_def Notifications_create_def)
  have f: "icon p \<noteq> [] \<and> \<not> list_ex ascii_whitespace (icon p) \<longrightarrow>
        (\<exists>s'. Notifications_show s p = Inr s')
        \<and> (\<exists>r. Notifications_create s p = Inr r)"
    using c by (auto simp: Notifications_show_def Notifications_create_def)
  show ?thesis using a b d e f by blast
qed

theorem absent_node_is_silent_noop_witness:
  "update example_handle \<lparr>message = Some ''late'', work = None\<rparr> example_closed = example_closed
   \<and> close example_handle example_closed = example_closed
   \<and> Notifications_show example_closed (example_props\<lparr>icon := []\<rparr>) = Inl SyntaxError
   \<and> (\<exists>s'. Notifications_show example_closed example_props = Inr s')"
proof -
  note th = absent_node_is_silent_noop [of example_closed example_handle
      "\<lparr>message = Some ''late'', work = None\<rparr>"]
  have g: "getTextById example_closed (id_p (properties example_handle)) = None"
    "getContainerById example_closed (id_p (properties example_handle)) = None"
    by (simp_all add: getTextById_def getContainerById_def example_closed_fields)
  have i: "icon (example_props\<lparr>icon := []\<rparr>) = []"
    "icon example_props \<noteq> [] \<and> \<not> list_ex ascii_whitespace (icon example_props)"
    by (simp_all add: example_props_def ascii_whitespace_def)
  show ?thesis
    using th [of "example_props\<lparr>icon := []\<rparr>"] th [of example_props] g i by blast
qed

subsection \<open>Showing a handle twice, and after a removal\<close>

lemma show_h_twice:
  assumes "node h \<in> fragments s" and "elems s (node h) = Some el"
    and "props el = properties h"
  shows "show_h h (show_h h s) = show_h h s"
    and "getContainerById s (id_p (properties h)) = None
           \<longrightarrow> container (show_h h s) = container s @ [node h]
             \<and> log (show_h h s) = log s @ [ShownEvent (id_p (properties h))]"
proof -
  have "getContainerById (show_h h s) (id_p (properties h)) \<noteq> None"
  proof (cases "getContainerById s (id_p (properties h))")
    case None
    let ?s' = "fire (id_p (properties h)) (appendChild_fragment (node h) s)"
    have eq: "show_h h s = ?s'"
      using None by (simp add: show_h_def)
    have "has_id ?s' (id_p (properties h)) (node h)"
      using assms(2,3) by (simp add: has_id_def)
    moreover have "node h \<in> set (container ?s')"
      using assms(1) by simp
    ultimately have "find (has_id ?s' (id_p (properties h))) (container ?s') \<noteq> None"
      unfolding find_None_iff by blast
    then show ?thesis
      unfolding eq getContainerById_def .
  next
    case (Some a)
    then show ?thesis by (simp add: show_h_def)
  qed
  then show "show_h h (show_h h s) = show_h h s"
    by (cases "getContainerById (show_h h s) (id_p (properties h))")
      (simp_all add: show_h_def [of h "show_h h s"])
  show "getContainerById s (id_p (properties h)) = None
           \<longrightarrow> container (show_h h s) = container s @ [node h]
             \<and> log (show_h h s) = log s @ [ShownEvent (id_p (properties h))]"
    using assms(1) by (simp add: show_h_def)
qed

text \<open>
  C3, at the sequence create, show, close, show. Created, shown and shown again,
  the example has one node in the container and one shown event. Closed and shown
  once more, the shown event fires a second time and the timer is armed again, but
  the container stays empty: the handle holds the fragment, which the first show
  emptied, so no node is appended.
\<close>

theorem show_after_removal_appends_nothing:
  "container (show_h example_handle example_shown) = [0]
   \<and> log (show_h example_handle example_shown) = [ShownEvent ''n1'']
   \<and> container example_closed = []
   \<and> container (show_h example_handle example_closed) = []
   \<and> fragments (show_h example_handle example_closed) = {}
   \<and> log (show_h example_handle example_closed)
       = [ShownEvent ''n1'', ElementRemove 0, ShownEvent ''n1'']
   \<and> timers (show_h example_handle example_closed) 2 = Some (0, 5)"
proof -
  have "show_h example_handle example_shown = example_shown"
    by (simp add: show_h_def getContainerById_def has_id_def example_shown_fields
        example_created_fields example_handle_def)
  then show ?thesis
    using example_reshown_fields
    by (simp add: example_shown_fields example_closed_fields example_reshown_def [symmetric])
qed

end
